theory Spec2Isabelle
  imports Complex_Main "HOL-Library.Word" "HOL-Library.Monad_Syntax"
begin

section \<open>JavaScript strings\<close>

text \<open>
  A JavaScript string is a finite sequence of 16-bit code units. Everything the plan
  pipeline does with text (\<^verbatim>\<open>trim\<close>, \<^verbatim>\<open>\s\<close>, \<^verbatim>\<open>encodeURIComponent\<close>,
  \<^verbatim>\<open>length\<close>) is defined on code units, so strings are lists of \<open>16 word\<close>.
  \<open>js\<close> embeds an ASCII literal.
\<close>

type_synonym jschar = "16 word"
type_synonym jsstring = "jschar list"

definition js :: "string \<Rightarrow> jsstring" where
  "js s = map of_char s"

text \<open>
  ECMAScript \<^verbatim>\<open>WhiteSpace\<close> and \<^verbatim>\<open>LineTerminator\<close>: the code units removed by
  \<^verbatim>\<open>String.prototype.trim\<close> and matched by \<^verbatim>\<open>\s\<close>.
\<close>

definition isWhiteSpace :: "jschar \<Rightarrow> bool" where
  "isWhiteSpace c \<longleftrightarrow>
     c = 0x09 \<or> c = 0x0A \<or> c = 0x0B \<or> c = 0x0C \<or> c = 0x0D \<or> c = 0x20 \<or> c = 0xA0 \<or>
     c = 0x1680 \<or> (0x2000 \<le> c \<and> c \<le> 0x200A) \<or> c = 0x2028 \<or> c = 0x2029 \<or>
     c = 0x202F \<or> c = 0x205F \<or> c = 0x3000 \<or> c = 0xFEFF"

definition trimStart :: "jsstring \<Rightarrow> jsstring" where
  "trimStart s = dropWhile isWhiteSpace s"

definition trimEnd :: "jsstring \<Rightarrow> jsstring" where
  "trimEnd s = rev (dropWhile isWhiteSpace (rev s))"

definition trim :: "jsstring \<Rightarrow> jsstring" where
  "trim s = trimEnd (trimStart s)"

text \<open>\<^verbatim>\<open>xs.join(sep)\<close>.\<close>

fun join :: "jsstring \<Rightarrow> jsstring list \<Rightarrow> jsstring" where
  "join sep [] = []"
| "join sep [x] = x"
| "join sep (x # y # ys) = x @ sep @ join sep (y # ys)"

text \<open>
  The decimal rendering of a non-negative integer, as the template literal
  \<^verbatim>\<open>`E${idx + 1}`\<close> produces it for an array index.
\<close>

definition digit :: "nat \<Rightarrow> jschar" where
  "digit d = of_nat (48 + d)"

fun numberToString :: "nat \<Rightarrow> jsstring" where
  "numberToString n =
     (if n < 10 then [digit n] else numberToString (n div 10) @ [digit (n mod 10)])"

declare numberToString.simps [simp del]

section \<open>The data model (src/lib/schema.ts)\<close>

datatype Platform = web | mobile | api | other
datatype TicketType = story | task | bug | spike
datatype Priority = P0 | P1 | P2 | P3

text \<open>The estimate enumeration \<^verbatim>\<open>"S" | "M" | "L"\<close>.\<close>

datatype Estimate = Est_S | Est_M | Est_L

record AnalyticsEvent =
  name :: jsstring
  properties :: "jsstring list"

record TicketAnalytics =
  events :: "AnalyticsEvent list"

record TicketQA =
  testCases :: "jsstring list"

text \<open>
  The value held in an epic's \<^verbatim>\<open>tickets\<close> field at run time. The static type is
  \<^verbatim>\<open>string[]\<close>; \<open>normalizeIds\<close> reads the field out of a plain object used as a
  dictionary, and for a key that \<^verbatim>\<open>Object.prototype\<close> defines the read returns the
  inherited member (a function, or the prototype object for \<^verbatim>\<open>__proto__\<close>) instead
  of an array. \<open>ProtoMember k\<close> is that member.
\<close>

datatype TicketRefs = StrArr "jsstring list" | ProtoMember jsstring

record Epic =
  epicId :: jsstring
  title :: jsstring
  outcome :: jsstring
  tickets :: TicketRefs
  edgeCases :: "jsstring list"

record Ticket =
  ticketId :: jsstring
  epicId :: jsstring
  type :: TicketType
  title :: jsstring
  userStory :: jsstring
  description :: jsstring
  acceptanceCriteria :: "jsstring list"
  outOfScope :: "jsstring list"
  dependencies :: "jsstring list"
  priority :: Priority
  estimate :: Estimate
  labels :: "jsstring list"
  components :: "jsstring list"
  analytics :: TicketAnalytics
  qa :: TicketQA

record Meta =
  productName :: jsstring
  platform :: Platform
  confidence :: rat
  assumptions :: "jsstring list"
  openQuestions :: "jsstring list"

record Summary =
  problem :: jsstring
  targetUsers :: "jsstring list"
  goals :: "jsstring list"
  nonGoals :: "jsstring list"
  successMetrics :: "jsstring list"

record PlanCore =
  meta :: Meta
  summary :: Summary
  epics :: "Epic list"
  tickets :: "Ticket list"

section \<open>The repair pass: normalizeIds (route module, src/app/page.tsx lines 1058-1088)\<close>

datatype js_error =
    TypeError jsstring
  | URIError
  | ZodError jsstring
  | Thrown "jsstring option"

text \<open>
  \<^verbatim>\<open>x?.trim() ? x.trim() : fallback\<close>: the trimmed id when it is non-empty (the
  empty string is falsy), the fallback otherwise.
\<close>

definition trimmedOr :: "jsstring \<Rightarrow> jsstring \<Rightarrow> jsstring" where
  "trimmedOr x fallback = (if trim x \<noteq> [] then trim x else fallback)"

text \<open>
  \<^verbatim>\<open>(plan.epics ?? []).map((e, idx) => ({...e, epicId: ...}))\<close>; the first argument
  is the index of the head of the list.
\<close>

fun repairEpics :: "nat \<Rightarrow> Epic list \<Rightarrow> Epic list" where
  "repairEpics idx [] = []"
| "repairEpics idx (e # es) =
     e\<lparr>Epic.epicId := trimmedOr (Epic.epicId e) (js ''E'' @ numberToString (idx + 1))\<rparr>
       # repairEpics (idx + 1) es"

text \<open>\<^verbatim>\<open>epics[0]?.epicId || "E1"\<close>.\<close>

definition firstEpicId :: "Epic list \<Rightarrow> jsstring" where
  "firstEpicId es =
     (case es of [] \<Rightarrow> js ''E1''
      | e # _ \<Rightarrow> if Epic.epicId e \<noteq> [] then Epic.epicId e else js ''E1'')"

text \<open>
  The callback of \<^verbatim>\<open>(plan.tickets ?? []).map((t, idx) => ...)\<close>, with the repaired
  epics \<open>es\<close> in scope; \<^verbatim>\<open>epicIdSet.has\<close> is membership in the set of their ids.
\<close>

definition repairTicket :: "Epic list \<Rightarrow> nat \<Rightarrow> Ticket \<Rightarrow> Ticket" where
  "repairTicket es idx t =
     (let ticketId = trimmedOr (Ticket.ticketId t) (js ''T'' @ numberToString (idx + 1));
          epicId = trimmedOr (Ticket.epicId t) (firstEpicId es)
      in t\<lparr>Ticket.ticketId := ticketId,
            Ticket.epicId := (if epicId \<in> set (map Epic.epicId es) then epicId
                              else firstEpicId es)\<rparr>)"

fun repairTickets :: "Epic list \<Rightarrow> nat \<Rightarrow> Ticket list \<Rightarrow> Ticket list" where
  "repairTickets es idx [] = []"
| "repairTickets es idx (t # ts) = repairTicket es idx t # repairTickets es (idx + 1) ts"

text \<open>
  \<^verbatim>\<open>ticketsByEpic\<close> is the object literal \<^verbatim>\<open>{}\<close> used as a dictionary: its own
  properties are a finite map, and a read of a key it does not own continues in
  \<^verbatim>\<open>Object.prototype\<close>, whose property names are listed here.
\<close>

definition objectPrototypeKeys :: "jsstring list" where
  "objectPrototypeKeys = map js
     [''constructor'', ''__defineGetter__'', ''__defineSetter__'', ''hasOwnProperty'',
      ''__lookupGetter__'', ''__lookupSetter__'', ''isPrototypeOf'',
      ''propertyIsEnumerable'', ''toString'', ''valueOf'', ''__proto__'',
      ''toLocaleString'']"

datatype 'a property = Own 'a | Inherited jsstring | Undefined

definition getProperty :: "(jsstring \<rightharpoonup> 'a) \<Rightarrow> jsstring \<Rightarrow> 'a property" where
  "getProperty obj k =
     (case obj k of Some v \<Rightarrow> Own v
      | None \<Rightarrow> if k \<in> set objectPrototypeKeys then Inherited k else Undefined)"

text \<open>
  The loop \<^verbatim>\<open>for (const t of tickets) { ticketsByEpic[t.epicId] ||= [];
  ticketsByEpic[t.epicId].push(t.ticketId) }\<close>. An own array and an inherited member are
  both truthy, so \<^verbatim>\<open>||=\<close> assigns only where the read is \<^verbatim>\<open>undefined\<close>; the
  inherited members have no \<^verbatim>\<open>push\<close>, and the call throws a TypeError.
\<close>

fun groupTickets ::
  "(jsstring \<rightharpoonup> jsstring list) \<Rightarrow> Ticket list \<Rightarrow> js_error + (jsstring \<rightharpoonup> jsstring list)" where
  "groupTickets obj [] = Inr obj"
| "groupTickets obj (t # ts) =
     (case getProperty obj (Ticket.epicId t) of
        Own ids \<Rightarrow> groupTickets (obj(Ticket.epicId t \<mapsto> ids @ [Ticket.ticketId t])) ts
      | Undefined \<Rightarrow> groupTickets (obj(Ticket.epicId t \<mapsto> [Ticket.ticketId t])) ts
      | Inherited k \<Rightarrow>
          Inl (TypeError (js ''ticketsByEpic[t.epicId].push is not a function'')))"

text \<open>\<^verbatim>\<open>epics.map((e) => ({...e, tickets: ticketsByEpic[e.epicId] ?? []}))\<close>.\<close>

definition withTickets :: "(jsstring \<rightharpoonup> jsstring list) \<Rightarrow> Epic \<Rightarrow> Epic" where
  "withTickets obj e =
     e\<lparr>Epic.tickets :=
         (case getProperty obj (Epic.epicId e) of
            Own ids \<Rightarrow> StrArr ids
          | Inherited k \<Rightarrow> ProtoMember k
          | Undefined \<Rightarrow> StrArr [])\<rparr>"

definition normalizeIds :: "PlanCore \<Rightarrow> js_error + PlanCore" where
  "normalizeIds plan =
     (let epics = repairEpics 0 (PlanCore.epics plan);
          tickets = repairTickets epics 0 (PlanCore.tickets plan)
      in case groupTickets Map.empty tickets of
           Inl err \<Rightarrow> Inl err
         | Inr ticketsByEpic \<Rightarrow>
             Inr (plan\<lparr>PlanCore.epics := map (withTickets ticketsByEpic) epics,
                       PlanCore.tickets := tickets\<rparr>))"


subsection \<open>Notions used to state the properties of the repair pass\<close>

text \<open>An id as the pass leaves it: not empty, and unchanged by trimming.\<close>

definition wellFormedId :: "jsstring \<Rightarrow> bool" where
  "wellFormedId x \<longleftrightarrow> x \<noteq> [] \<and> trim x = x"

text \<open>
  The fallback of the specification: the first epic's id, or \<^verbatim>\<open>"E1"\<close> without epics.
  (On repaired epics it agrees with \<open>firstEpicId\<close>, since no repaired id is empty.)
\<close>

definition fallbackEpicId :: "Epic list \<Rightarrow> jsstring" where
  "fallbackEpicId es = (case es of [] \<Rightarrow> js ''E1'' | e # _ \<Rightarrow> Epic.epicId e)"

text \<open>The ids of the tickets that refer to the epic \<open>k\<close>, in ticket order.\<close>

definition idsFor :: "jsstring \<Rightarrow> Ticket list \<Rightarrow> jsstring list" where
  "idsFor k ts = map Ticket.ticketId (filter (\<lambda>t. Ticket.epicId t = k) ts)"

text \<open>The number a decimal rendering stands for.\<close>

definition digitValue :: "jschar \<Rightarrow> nat" where
  "digitValue c = unat c - 48"

definition decimalValue :: "jsstring \<Rightarrow> nat" where
  "decimalValue s = foldl (\<lambda>acc c. 10 * acc + digitValue c) 0 s"

text \<open>
  The raw ids a repair keeps apart: once trimmed, the non-empty ones are pairwise
  different, and none equals the id generated at a position whose raw id is absent
  (\<open>p\<close> is the prefix, \<^verbatim>\<open>"E"\<close> or \<^verbatim>\<open>"T"\<close>).
\<close>

definition idsRepairable :: "jsstring \<Rightarrow> jsstring list \<Rightarrow> bool" where
  "idsRepairable p raw \<longleftrightarrow>
     (\<forall>i<length raw. \<forall>j<length raw.
        i \<noteq> j \<and> trim (raw ! i) \<noteq> [] \<and> trim (raw ! j) \<noteq> [] \<longrightarrow> trim (raw ! i) \<noteq> trim (raw ! j)) \<and>
     (\<forall>i<length raw. \<forall>j<length raw.
        trim (raw ! i) = [] \<longrightarrow> trim (raw ! j) \<noteq> p @ numberToString (i + 1))"

subsection \<open>Example plans\<close>

text \<open>
  Plans are built from an epic and a ticket that are empty except for their ids (and a
  ticket title).
\<close>

definition fixtureMeta :: Meta where
  "fixtureMeta = \<lparr>productName = js ''Tutor'', platform = web, confidence = 70,
                   assumptions = [], openQuestions = []\<rparr>"

definition fixtureSummary :: Summary where
  "fixtureSummary = \<lparr>problem = [], targetUsers = [], goals = [], nonGoals = [],
                      successMetrics = []\<rparr>"

definition fixtureEpic :: "jsstring \<Rightarrow> TicketRefs \<Rightarrow> Epic" where
  "fixtureEpic i refs = \<lparr>Epic.epicId = i, Epic.title = [], outcome = [], Epic.tickets = refs,
                         edgeCases = []\<rparr>"

definition fixtureTicket :: "jsstring \<Rightarrow> jsstring \<Rightarrow> Ticket" where
  "fixtureTicket i e =
     \<lparr>Ticket.ticketId = i, Ticket.epicId = e, type = task, Ticket.title = js ''Add login'',
      userStory = [], description = [], acceptanceCriteria = [], outOfScope = [],
      dependencies = [], priority = P2, estimate = Est_M, labels = [], components = [],
      analytics = \<lparr>events = []\<rparr>, qa = \<lparr>testCases = []\<rparr>\<rparr>"

definition fixturePlan :: "Epic list \<Rightarrow> Ticket list \<Rightarrow> PlanCore" where
  "fixturePlan es ts = \<lparr>meta = fixtureMeta, summary = fixtureSummary, epics = es, tickets = ts\<rparr>"

text \<open>
  The scenario of the specification: two epics \<^verbatim>\<open>E1\<close> and \<^verbatim>\<open>E2\<close> and three tickets,
  the second referring to an epic \<^verbatim>\<open>E9\<close> that does not exist, the third without an id
  and with blanks around its epic id; the first epic arrives with a ticket list of its own.
\<close>

definition planScenario :: PlanCore where
  "planScenario = fixturePlan
     [fixtureEpic (js ''E1'') (StrArr [js ''T9'']), fixtureEpic (js ''E2'') (StrArr [])]
     [fixtureTicket (js ''T1'') (js ''E1''), fixtureTicket (js ''T2'') (js ''E9''),
      fixtureTicket [] (js '' E2 '')]"

definition planScenarioRepaired :: PlanCore where
  "planScenarioRepaired = fixturePlan
     [fixtureEpic (js ''E1'') (StrArr [js ''T1'', js ''T2'']),
      fixtureEpic (js ''E2'') (StrArr [js ''T3''])]
     [fixtureTicket (js ''T1'') (js ''E1''), fixtureTicket (js ''T2'') (js ''E1''),
      fixtureTicket (js ''T3'') (js ''E2'')]"

text \<open>One epic whose id is a property name of \<^verbatim>\<open>Object.prototype\<close>, and no tickets.\<close>

definition planInheritedKey :: PlanCore where
  "planInheritedKey = fixturePlan [fixtureEpic (js ''toString'') (StrArr [])] []"

text \<open>
  One epic whose id is a property name of \<^verbatim>\<open>Object.prototype\<close>, and one ticket that
  refers to it.
\<close>

definition planInheritedKeyTicket :: PlanCore where
  "planInheritedKeyTicket = fixturePlan [fixtureEpic (js ''constructor'') (StrArr [])]
     [fixtureTicket (js ''T1'') (js ''constructor'')]"

text \<open>Two epics with the id \<^verbatim>\<open>E1\<close> and two tickets with the id \<^verbatim>\<open>T1\<close>.\<close>

definition planDuplicateIds :: PlanCore where
  "planDuplicateIds = fixturePlan
     [fixtureEpic (js ''E1'') (StrArr [js ''T1'', js ''T1'']),
      fixtureEpic (js ''E1'') (StrArr [js ''T1'', js ''T1''])]
     [fixtureTicket (js ''T1'') (js ''E1''), fixtureTicket (js ''T1'') (js ''E1'')]"

section \<open>Lenient decoding (src/lib/schema.ts)\<close>

text \<open>
  The candidate object is what \<^verbatim>\<open>JSON.parse\<close> makes of the oracle's text: a JSON value.
  An object is the list of its members; a parsed object has one value per key, and
  \<open>field\<close> reads a key (\<open>None\<close> is \<^verbatim>\<open>undefined\<close>, the value of a missing key).
  A number is the value of the double that \<^verbatim>\<open>JSON.parse\<close> produced, a rational; the
  schema only compares it with 0 and 100.
\<close>

datatype json =
    JNull
  | JBool bool
  | JNum rat
  | JStr jsstring
  | JArr "json list"
  | JObj "(jsstring \<times> json) list"

definition field :: "(jsstring \<times> json) list \<Rightarrow> string \<Rightarrow> json option" where
  "field fs k = map_of fs (js k)"

text \<open>
  A zod schema maps the input (a value or \<^verbatim>\<open>undefined\<close>) to the parsed output, or
  fails. The combinators below are the ones schema.ts uses, with zod's documented
  behaviour: \<^verbatim>\<open>z.string()\<close> accepts strings only, \<^verbatim>\<open>z.number().min(a).max(b)\<close>
  numbers within the bounds, \<^verbatim>\<open>z.enum\<close> the listed strings, \<^verbatim>\<open>z.array(el)\<close> arrays
  all of whose elements \<open>el\<close> accepts, \<^verbatim>\<open>z.object(shape)\<close> objects (not \<^verbatim>\<open>null\<close>, not
  arrays) whose every shape key parses, unknown keys being dropped; and
  \<^verbatim>\<open>schema.catch(d)\<close> returns \<open>d\<close> wherever \<open>schema\<close> fails.
\<close>

type_synonym 'a schema = "json option \<Rightarrow> 'a option"

definition z_string :: "jsstring schema" where
  "z_string v = (case v of Some (JStr s) \<Rightarrow> Some s | _ \<Rightarrow> None)"

definition z_number_min_max :: "rat \<Rightarrow> rat \<Rightarrow> rat schema" where
  "z_number_min_max lo hi v =
     (case v of Some (JNum n) \<Rightarrow> if lo \<le> n \<and> n \<le> hi then Some n else None | _ \<Rightarrow> None)"

definition z_enum :: "(string \<times> 'a) list \<Rightarrow> 'a schema" where
  "z_enum variants v =
     (case v of Some (JStr s) \<Rightarrow> map_of (map (\<lambda>(k, x). (js k, x)) variants) s | _ \<Rightarrow> None)"

definition z_array :: "'a schema \<Rightarrow> 'a list schema" where
  "z_array el v = (case v of Some (JArr xs) \<Rightarrow> those (map (\<lambda>x. el (Some x)) xs) | _ \<Rightarrow> None)"

definition z_object :: "((jsstring \<times> json) list \<Rightarrow> 'a option) \<Rightarrow> 'a schema" where
  "z_object shape v = (case v of Some (JObj fs) \<Rightarrow> shape fs | _ \<Rightarrow> None)"

definition z_catch :: "'a schema \<Rightarrow> 'a \<Rightarrow> 'a schema" where
  "z_catch s d v = Some (case s v of Some x \<Rightarrow> x | None \<Rightarrow> d)"

definition zStr :: "jsstring schema" where
  "zStr = z_catch z_string []"

definition zStrArr :: "jsstring list schema" where
  "zStrArr = z_catch (z_array z_string) []"

definition PlatformEnum :: "Platform schema" where
  "PlatformEnum =
     z_catch (z_enum [(''web'', web), (''mobile'', mobile), (''api'', api), (''other'', other)])
       web"

definition TicketTypeEnum :: "TicketType schema" where
  "TicketTypeEnum =
     z_catch (z_enum [(''story'', story), (''task'', task), (''bug'', bug), (''spike'', spike)])
       task"

definition PriorityEnum :: "Priority schema" where
  "PriorityEnum = z_catch (z_enum [(''P0'', P0), (''P1'', P1), (''P2'', P2), (''P3'', P3)]) P2"

definition EstimateEnum :: "Estimate schema" where
  "EstimateEnum = z_catch (z_enum [(''S'', Est_S), (''M'', Est_M), (''L'', Est_L)]) Est_M"

definition AnalyticsEventSchema :: "AnalyticsEvent schema" where
  "AnalyticsEventSchema = z_object (\<lambda>fs. do {
     name \<leftarrow> zStr (field fs ''name'');
     properties \<leftarrow> zStrArr (field fs ''properties'');
     Some \<lparr>name = name, properties = properties\<rparr> })"

definition TicketAnalyticsSchema :: "TicketAnalytics schema" where
  "TicketAnalyticsSchema =
     z_catch (z_object (\<lambda>fs. do {
       events \<leftarrow> z_catch (z_array AnalyticsEventSchema) [] (field fs ''events'');
       Some \<lparr>events = events\<rparr> }))
     \<lparr>events = []\<rparr>"

definition TicketQASchema :: "TicketQA schema" where
  "TicketQASchema =
     z_catch (z_object (\<lambda>fs. do {
       testCases \<leftarrow> zStrArr (field fs ''testCases'');
       Some \<lparr>testCases = testCases\<rparr> }))
     \<lparr>testCases = []\<rparr>"

definition TicketSchema :: "Ticket schema" where
  "TicketSchema = z_object (\<lambda>fs. do {
     ticketId \<leftarrow> zStr (field fs ''ticketId'');
     epicId \<leftarrow> z_catch z_string (js ''E1'') (field fs ''epicId'');
     type \<leftarrow> TicketTypeEnum (field fs ''type'');
     title \<leftarrow> zStr (field fs ''title'');
     userStory \<leftarrow> zStr (field fs ''userStory'');
     description \<leftarrow> zStr (field fs ''description'');
     acceptanceCriteria \<leftarrow> zStrArr (field fs ''acceptanceCriteria'');
     outOfScope \<leftarrow> zStrArr (field fs ''outOfScope'');
     dependencies \<leftarrow> zStrArr (field fs ''dependencies'');
     priority \<leftarrow> z_catch PriorityEnum P2 (field fs ''priority'');
     estimate \<leftarrow> z_catch EstimateEnum Est_M (field fs ''estimate'');
     labels \<leftarrow> zStrArr (field fs ''labels'');
     components \<leftarrow> zStrArr (field fs ''components'');
     analytics \<leftarrow> TicketAnalyticsSchema (field fs ''analytics'');
     qa \<leftarrow> TicketQASchema (field fs ''qa'');
     Some \<lparr>Ticket.ticketId = ticketId, Ticket.epicId = epicId, type = type,
           Ticket.title = title, userStory = userStory, description = description,
           acceptanceCriteria = acceptanceCriteria, outOfScope = outOfScope,
           dependencies = dependencies, priority = priority, estimate = estimate,
           labels = labels, components = components, analytics = analytics, qa = qa\<rparr> })"

definition EpicSchema :: "Epic schema" where
  "EpicSchema = z_object (\<lambda>fs. do {
     epicId \<leftarrow> zStr (field fs ''epicId'');
     title \<leftarrow> zStr (field fs ''title'');
     outcome \<leftarrow> zStr (field fs ''outcome'');
     tickets \<leftarrow> zStrArr (field fs ''tickets'');
     edgeCases \<leftarrow> zStrArr (field fs ''edgeCases'');
     Some \<lparr>Epic.epicId = epicId, Epic.title = title, outcome = outcome,
           Epic.tickets = StrArr tickets, edgeCases = edgeCases\<rparr> })"

definition MetaSchema :: "Meta schema" where
  "MetaSchema = z_object (\<lambda>fs. do {
     productName \<leftarrow> zStr (field fs ''productName'');
     platform \<leftarrow> PlatformEnum (field fs ''platform'');
     confidence \<leftarrow> z_catch (z_number_min_max 0 100) 70 (field fs ''confidence'');
     assumptions \<leftarrow> zStrArr (field fs ''assumptions'');
     openQuestions \<leftarrow> zStrArr (field fs ''openQuestions'');
     Some \<lparr>productName = productName, platform = platform, confidence = confidence,
           assumptions = assumptions, openQuestions = openQuestions\<rparr> })"

definition SummarySchema :: "Summary schema" where
  "SummarySchema = z_object (\<lambda>fs. do {
     problem \<leftarrow> zStr (field fs ''problem'');
     targetUsers \<leftarrow> zStrArr (field fs ''targetUsers'');
     goals \<leftarrow> zStrArr (field fs ''goals'');
     nonGoals \<leftarrow> zStrArr (field fs ''nonGoals'');
     successMetrics \<leftarrow> zStrArr (field fs ''successMetrics'');
     Some \<lparr>problem = problem, targetUsers = targetUsers, goals = goals, nonGoals = nonGoals,
           successMetrics = successMetrics\<rparr> })"

text \<open>
  \<^verbatim>\<open>PlanCoreSchema\<close>. The \<^verbatim>\<open>meta\<close> and \<^verbatim>\<open>summary\<close> members are plain
  \<^verbatim>\<open>z.object\<close> schemas (named here \<open>MetaSchema\<close> and \<open>SummarySchema\<close>) without a
  \<^verbatim>\<open>.catch\<close>, and so is the plan itself.
\<close>

definition PlanCoreSchema :: "PlanCore schema" where
  "PlanCoreSchema = z_object (\<lambda>fs. do {
     meta \<leftarrow> MetaSchema (field fs ''meta'');
     summary \<leftarrow> SummarySchema (field fs ''summary'');
     epics \<leftarrow> z_catch (z_array EpicSchema) [] (field fs ''epics'');
     tickets \<leftarrow> z_catch (z_array TicketSchema) [] (field fs ''tickets'');
     Some \<lparr>meta = meta, summary = summary, epics = epics, tickets = tickets\<rparr> })"

subsection \<open>The decoding policy in the specification's words\<close>

text \<open>
  A leaf that is missing or of the wrong type is replaced by its default: the empty
  string, the empty list, the default variant of an enumeration, 70 for the confidence.
  A list is a leaf as a whole: one element of the wrong type makes the list invalid.
\<close>

definition leafString :: "jsstring \<Rightarrow> json option \<Rightarrow> jsstring" where
  "leafString d v = (case v of Some (JStr s) \<Rightarrow> s | _ \<Rightarrow> d)"

fun isJStr :: "json \<Rightarrow> bool" where
  "isJStr (JStr s) = True"
| "isJStr _ = False"

fun stringOf :: "json \<Rightarrow> jsstring" where
  "stringOf (JStr s) = s"
| "stringOf _ = []"

definition leafStringList :: "json option \<Rightarrow> jsstring list" where
  "leafStringList v =
     (case v of Some (JArr xs) \<Rightarrow> if list_all isJStr xs then map stringOf xs else []
      | _ \<Rightarrow> [])"

definition leafEnum :: "(string \<times> 'a) list \<Rightarrow> 'a \<Rightarrow> json option \<Rightarrow> 'a" where
  "leafEnum variants d v =
     (case v of
        Some (JStr s) \<Rightarrow>
          (case map_of (map (\<lambda>(k, x). (js k, x)) variants) s of Some x \<Rightarrow> x | None \<Rightarrow> d)
      | _ \<Rightarrow> d)"

definition leafConfidence :: "json option \<Rightarrow> rat" where
  "leafConfidence v =
     (case v of Some (JNum n) \<Rightarrow> if 0 \<le> n \<and> n \<le> 100 then n else 70 | _ \<Rightarrow> 70)"

fun isJObj :: "json \<Rightarrow> bool" where
  "isJObj (JObj fs) = True"
| "isJObj _ = False"

fun membersOf :: "json \<Rightarrow> (jsstring \<times> json) list" where
  "membersOf (JObj fs) = fs"
| "membersOf _ = []"

definition leafRecordList :: "((jsstring \<times> json) list \<Rightarrow> 'a) \<Rightarrow> json option \<Rightarrow> 'a list" where
  "leafRecordList f v =
     (case v of Some (JArr xs) \<Rightarrow> if list_all isJObj xs then map (\<lambda>x. f (membersOf x)) xs else []
      | _ \<Rightarrow> [])"

definition objectMember :: "(jsstring \<times> json) list \<Rightarrow> string \<Rightarrow> (jsstring \<times> json) list option" where
  "objectMember fs k = (case field fs k of Some (JObj m) \<Rightarrow> Some m | _ \<Rightarrow> None)"

definition lenientEvent :: "(jsstring \<times> json) list \<Rightarrow> AnalyticsEvent" where
  "lenientEvent fs =
     \<lparr>name = leafString [] (field fs ''name''),
      properties = leafStringList (field fs ''properties'')\<rparr>"

definition lenientAnalytics :: "json option \<Rightarrow> TicketAnalytics" where
  "lenientAnalytics v =
     (case v of Some (JObj fs) \<Rightarrow> \<lparr>events = leafRecordList lenientEvent (field fs ''events'')\<rparr>
      | _ \<Rightarrow> \<lparr>events = []\<rparr>)"

definition lenientQA :: "json option \<Rightarrow> TicketQA" where
  "lenientQA v =
     (case v of Some (JObj fs) \<Rightarrow> \<lparr>testCases = leafStringList (field fs ''testCases'')\<rparr>
      | _ \<Rightarrow> \<lparr>testCases = []\<rparr>)"

definition lenientTicket :: "(jsstring \<times> json) list \<Rightarrow> Ticket" where
  "lenientTicket fs =
     \<lparr>Ticket.ticketId = leafString [] (field fs ''ticketId''),
      Ticket.epicId = leafString (js ''E1'') (field fs ''epicId''),
      type = leafEnum [(''story'', story), (''task'', task), (''bug'', bug), (''spike'', spike)]
               task (field fs ''type''),
      Ticket.title = leafString [] (field fs ''title''),
      userStory = leafString [] (field fs ''userStory''),
      description = leafString [] (field fs ''description''),
      acceptanceCriteria = leafStringList (field fs ''acceptanceCriteria''),
      outOfScope = leafStringList (field fs ''outOfScope''),
      dependencies = leafStringList (field fs ''dependencies''),
      priority = leafEnum [(''P0'', P0), (''P1'', P1), (''P2'', P2), (''P3'', P3)] P2
                   (field fs ''priority''),
      estimate = leafEnum [(''S'', Est_S), (''M'', Est_M), (''L'', Est_L)] Est_M
                   (field fs ''estimate''),
      labels = leafStringList (field fs ''labels''),
      components = leafStringList (field fs ''components''),
      analytics = lenientAnalytics (field fs ''analytics''),
      qa = lenientQA (field fs ''qa'')\<rparr>"

definition lenientEpic :: "(jsstring \<times> json) list \<Rightarrow> Epic" where
  "lenientEpic fs =
     \<lparr>Epic.epicId = leafString [] (field fs ''epicId''),
      Epic.title = leafString [] (field fs ''title''),
      outcome = leafString [] (field fs ''outcome''),
      Epic.tickets = StrArr (leafStringList (field fs ''tickets'')),
      edgeCases = leafStringList (field fs ''edgeCases'')\<rparr>"

definition lenientMeta :: "(jsstring \<times> json) list \<Rightarrow> Meta" where
  "lenientMeta fs =
     \<lparr>productName = leafString [] (field fs ''productName''),
      platform = leafEnum [(''web'', web), (''mobile'', mobile), (''api'', api), (''other'', other)]
                   web (field fs ''platform''),
      confidence = leafConfidence (field fs ''confidence''),
      assumptions = leafStringList (field fs ''assumptions''),
      openQuestions = leafStringList (field fs ''openQuestions'')\<rparr>"

definition lenientSummary :: "(jsstring \<times> json) list \<Rightarrow> Summary" where
  "lenientSummary fs =
     \<lparr>problem = leafString [] (field fs ''problem''),
      targetUsers = leafStringList (field fs ''targetUsers''),
      goals = leafStringList (field fs ''goals''),
      nonGoals = leafStringList (field fs ''nonGoals''),
      successMetrics = leafStringList (field fs ''successMetrics'')\<rparr>"

definition lenientPlan ::
  "(jsstring \<times> json) list \<Rightarrow> (jsstring \<times> json) list \<Rightarrow> (jsstring \<times> json) list \<Rightarrow> PlanCore" where
  "lenientPlan fs m s =
     \<lparr>meta = lenientMeta m, summary = lenientSummary s,
      epics = leafRecordList lenientEpic (field fs ''epics''),
      tickets = leafRecordList lenientTicket (field fs ''tickets'')\<rparr>"

text \<open>
  The confidence member fails its validation: it is missing, not a number, or a number
  outside the range 0 to 100.
\<close>

definition confidenceInvalid :: "json option \<Rightarrow> bool" where
  "confidenceInvalid v \<longleftrightarrow>
     (case v of None \<Rightarrow> True | Some (JNum n) \<Rightarrow> n < 0 \<or> 100 < n | Some _ \<Rightarrow> True)"

definition candidateOverconfident :: "(jsstring \<times> json) list" where
  "candidateOverconfident =
     [(js ''meta'', JObj [(js ''productName'', JStr (js ''Tutor'')), (js ''confidence'', JNum 150)]),
      (js ''summary'', JObj [])]"


text \<open>Candidate objects used as examples.\<close>

definition candidateMetaOnly :: "(jsstring \<times> json) list" where
  "candidateMetaOnly = [(js ''meta'', JObj [])]"

definition candidateEmpty :: json where
  "candidateEmpty = JObj []"

definition candidateBareTicket :: json where
  "candidateBareTicket =
     JObj [(js ''meta'', JObj []), (js ''summary'', JObj []), (js ''tickets'', JArr [JObj []])]"


section \<open>Markdown rendering (markdown module, src/app/page.tsx lines 1203-1296, and the ticket card, lines 134-168)\<close>


fun typeString :: "TicketType \<Rightarrow> jsstring" where
  "typeString story = js ''story''"
| "typeString task = js ''task''"
| "typeString bug = js ''bug''"
| "typeString spike = js ''spike''"

fun priorityString :: "Priority \<Rightarrow> jsstring" where
  "priorityString P0 = js ''P0''"
| "priorityString P1 = js ''P1''"
| "priorityString P2 = js ''P2''"
| "priorityString P3 = js ''P3''"

fun estimateString :: "Estimate \<Rightarrow> jsstring" where
  "estimateString Est_S = js ''S''"
| "estimateString Est_M = js ''M''"
| "estimateString Est_L = js ''L''"

definition newline :: jsstring where
  "newline = [0x0A]"

text \<open>\<^verbatim>\<open>for (const x of xs) parts.push(`- ${x}`)\<close>.\<close>

definition bullets :: "jsstring list \<Rightarrow> jsstring list" where
  "bullets xs = map (\<lambda>x. js ''- '' @ x) xs"

text \<open>
  \<^verbatim>\<open>if (xs?.length) { parts.push(""); parts.push(heading); for (...) parts.push(`- ${x}`) }\<close>:
  the section is pushed only for a non-empty list.
\<close>

definition optionalSection :: "string \<Rightarrow> jsstring list \<Rightarrow> jsstring list" where
  "optionalSection heading xs = (if xs \<noteq> [] then [[], js heading] @ bullets xs else [])"

text \<open>
  \<^verbatim>\<open>ticketToMarkdown\<close> of the markdown module, the renderer of the Markdown export. The array
  \<^verbatim>\<open>parts\<close> is built in three stretches: up to the acceptance criteria, the two optional
  sections, and from the QA test cases on.
\<close>

definition ticketHead :: "Ticket \<Rightarrow> jsstring list" where
  "ticketHead t =
     [js ''### '' @ Ticket.ticketId t @ js '' - '' @ Ticket.title t,
      js ''Type: '' @ typeString (type t) @ js '' | Priority: '' @ priorityString (priority t)
        @ js '' | Estimate: '' @ estimateString (estimate t),
      [],
      js ''User story: '' @ userStory t,
      [],
      description t,
      [],
      js ''Acceptance criteria:''] @ bullets (acceptanceCriteria t)"

definition eventLines :: "AnalyticsEvent \<Rightarrow> jsstring list" where
  "eventLines ev = (js ''- '' @ name ev) # map (\<lambda>p. js ''  - '' @ p) (properties ev)"

definition ticketTail :: "Ticket \<Rightarrow> jsstring list" where
  "ticketTail t =
     [[], js ''QA test cases:''] @ bullets (testCases (qa t))
       @ [[], js ''Analytics events:''] @ concat (map eventLines (events (analytics t)))"

definition ticketParts :: "Ticket \<Rightarrow> jsstring list" where
  "ticketParts t =
     ticketHead t @ optionalSection ''Out of scope:'' (outOfScope t)
       @ optionalSection ''Dependencies:'' (dependencies t) @ ticketTail t"

definition ticketToMarkdown :: "Ticket \<Rightarrow> jsstring" where
  "ticketToMarkdown t = join newline (ticketParts t)"





text \<open>
  \<^verbatim>\<open>ticketToMarkdown\<close> of the page module, the text block of a ticket card.
  \<^verbatim>\<open>deps || '- None'\<close> takes the second operand when the joined text is the empty string.
\<close>

definition orNone :: "jsstring \<Rightarrow> jsstring" where
  "orNone s = (if s \<noteq> [] then s else js ''- None'')"

definition ticketToMarkdown_page :: "Ticket \<Rightarrow> jsstring" where
  "ticketToMarkdown_page t =
     (let ac = join newline (map (\<lambda>x. js ''- [ ] '' @ x) (acceptanceCriteria t));
          deps = join newline (bullets (dependencies t));
          oos = join newline (bullets (outOfScope t));
          qaText = join newline (bullets (testCases (qa t)));
          eventsText = join newline
                     (map (\<lambda>e. js ''- '' @ name e @ js '' ('' @ join (js '', '') (properties e)
                                 @ js '')'')
                        (events (analytics t)))
      in js ''## '' @ Ticket.ticketId t @ js '' - '' @ Ticket.title t @ newline
         @ newline
         @ js ''Type: '' @ typeString (type t) @ js '' | Priority: '' @ priorityString (priority t)
         @ js '' | Estimate: '' @ estimateString (estimate t) @ js '' | Epic: '' @ Ticket.epicId t
         @ newline
         @ newline
         @ js ''User story:'' @ newline
         @ userStory t @ newline
         @ newline
         @ js ''Description:'' @ newline
         @ description t @ newline
         @ newline
         @ js ''Acceptance criteria:'' @ newline
         @ ac @ newline
         @ newline
         @ js ''Dependencies:'' @ newline
         @ orNone deps @ newline
         @ newline
         @ js ''Out of scope:'' @ newline
         @ orNone oos @ newline
         @ newline
         @ js ''QA test cases:'' @ newline
         @ orNone qaText @ newline
         @ newline
         @ js ''Analytics:'' @ newline
         @ orNone eventsText @ newline)"

text \<open>\<^verbatim>\<open>s.includes(p)\<close>: \<open>p\<close> occurs in \<open>s\<close> as a contiguous run of code units.\<close>

definition startsWith :: "jsstring \<Rightarrow> jsstring \<Rightarrow> bool" where
  "startsWith s p \<longleftrightarrow> take (length p) s = p"

fun includesString :: "jsstring \<Rightarrow> jsstring \<Rightarrow> bool" where
  "includesString [] p = (p = [])"
| "includesString (c # cs) p = (startsWith (c # cs) p \<or> includesString cs p)"

text \<open>A ticket with no dependencies, nothing out of scope, and every other list empty.\<close>

definition ticketBare :: Ticket where
  "ticketBare = fixtureTicket (js ''T1'') (js ''E1'')"


section \<open>Issue links (src/lib/linear.ts)\<close>

text \<open>
  \<^verbatim>\<open>encodeURIComponent\<close> as ECMAScript defines it (the abstract operation Encode with the
  unreserved set of URI components). It reads the string one code point at a time: a code
  unit of the unreserved set is copied; any other code point is written as the
  \<^verbatim>\<open>%XX\<close> escapes of its UTF-8 octets; a surrogate code unit that is not part of a pair
  throws a URIError.
\<close>

definition isUnreserved :: "jschar \<Rightarrow> bool" where
  "isUnreserved c \<longleftrightarrow>
     (0x41 \<le> c \<and> c \<le> 0x5A) \<or> (0x61 \<le> c \<and> c \<le> 0x7A) \<or> (0x30 \<le> c \<and> c \<le> 0x39) \<or>
     c = 0x2D \<or> c = 0x5F \<or> c = 0x2E \<or> c = 0x21 \<or> c = 0x7E \<or> c = 0x2A \<or> c = 0x27 \<or>
     c = 0x28 \<or> c = 0x29"

definition isLeadSurrogate :: "jschar \<Rightarrow> bool" where
  "isLeadSurrogate c \<longleftrightarrow> 0xD800 \<le> c \<and> c \<le> 0xDBFF"

definition isTrailSurrogate :: "jschar \<Rightarrow> bool" where
  "isTrailSurrogate c \<longleftrightarrow> 0xDC00 \<le> c \<and> c \<le> 0xDFFF"

definition hexDigit :: "nat \<Rightarrow> jschar" where
  "hexDigit d = of_nat (if d < 10 then 48 + d else 55 + d)"

definition percentEscape :: "nat \<Rightarrow> jsstring" where
  "percentEscape octet = [0x25, hexDigit (octet div 16), hexDigit (octet mod 16)]"

definition utf8 :: "nat \<Rightarrow> nat list" where
  "utf8 v =
     (if v < 0x80 then [v]
      else if v < 0x800 then [0xC0 + v div 64, 0x80 + v mod 64]
      else if v < 0x10000 then [0xE0 + v div 4096, 0x80 + v div 64 mod 64, 0x80 + v mod 64]
      else [0xF0 + v div 262144, 0x80 + v div 4096 mod 64, 0x80 + v div 64 mod 64,
            0x80 + v mod 64])"

definition escapeCodePoint :: "nat \<Rightarrow> jsstring" where
  "escapeCodePoint v = concat (map percentEscape (utf8 v))"

definition pairCodePoint :: "jschar \<Rightarrow> jschar \<Rightarrow> nat" where
  "pairCodePoint hi lo = (unat hi - 0xD800) * 0x400 + (unat lo - 0xDC00) + 0x10000"

fun encodeURIComponent :: "jsstring \<Rightarrow> js_error + jsstring" where
  "encodeURIComponent [] = Inr []"
| "encodeURIComponent (c # cs) =
     (if isUnreserved c then
        (case encodeURIComponent cs of Inl err \<Rightarrow> Inl err | Inr r \<Rightarrow> Inr (c # r))
      else if isTrailSurrogate c then Inl URIError
      else if \<not> isLeadSurrogate c then
        (case encodeURIComponent cs of
           Inl err \<Rightarrow> Inl err
         | Inr r \<Rightarrow> Inr (escapeCodePoint (unat c) @ r))
      else
        (case cs of
           [] \<Rightarrow> Inl URIError
         | d # ds \<Rightarrow>
             if isTrailSurrogate d then
               (case encodeURIComponent ds of
                  Inl err \<Rightarrow> Inl err
                | Inr r \<Rightarrow> Inr (escapeCodePoint (pairCodePoint c d) @ r))
             else Inl URIError))"

text \<open>\<^verbatim>\<open>.replace(/%20/g, "+")\<close>: every occurrence, scanning from the left.\<close>

fun replacePercent20 :: "jsstring \<Rightarrow> jsstring" where
  "replacePercent20 (a # b # c # rest) =
     (if a = 0x25 \<and> b = 0x32 \<and> c = 0x30 then 0x2B # replacePercent20 rest
      else a # replacePercent20 (b # c # rest))"
| "replacePercent20 s = s"

definition encodeForQuery :: "jsstring \<Rightarrow> js_error + jsstring" where
  "encodeForQuery v =
     (case encodeURIComponent v of Inl err \<Rightarrow> Inl err | Inr e \<Rightarrow> Inr (replacePercent20 e))"

definition buildLinearNewUrl :: "jsstring \<Rightarrow> jsstring \<Rightarrow> js_error + jsstring" where
  "buildLinearNewUrl titleText descriptionText =
     (case encodeForQuery titleText of
        Inl err \<Rightarrow> Inl err
      | Inr t \<Rightarrow>
          (case encodeForQuery descriptionText of
             Inl err \<Rightarrow> Inl err
           | Inr d \<Rightarrow> Inr (js ''https://linear.new?title='' @ t @ js ''&description='' @ d)))"

definition ticketMarkdownDescription :: "Ticket \<Rightarrow> jsstring" where
  "ticketMarkdownDescription t =
     join newline
       ([js ''Type: '' @ typeString (type t),
         js ''Priority: '' @ priorityString (priority t),
         js ''Estimate: '' @ estimateString (estimate t),
         [],
         js ''User story: '' @ userStory t,
         [],
         description t,
         [],
         js ''Acceptance criteria:''] @ bullets (acceptanceCriteria t)
        @ optionalSection ''Out of scope:'' (outOfScope t)
        @ optionalSection ''Dependencies:'' (dependencies t)
        @ [[], js ''QA test cases:''] @ bullets (testCases (qa t))
        @ [[], js ''Analytics:'']
        @ map (\<lambda>ev. js ''- '' @ name ev @ js '' ('' @ join (js '', '') (properties ev) @ js '')'')
            (events (analytics t)))"

record LinearLink =
  ticketId :: jsstring
  linearNewUrl :: jsstring

text \<open>\<^verbatim>\<open>tickets.map((t) => ({ticketId: t.ticketId, linearNewUrl: ...}))\<close>.\<close>

fun buildLinearLinks :: "Ticket list \<Rightarrow> js_error + LinearLink list" where
  "buildLinearLinks [] = Inr []"
| "buildLinearLinks (t # ts) =
     (case buildLinearNewUrl (Ticket.title t) (ticketMarkdownDescription t) of
        Inl err \<Rightarrow> Inl err
      | Inr url \<Rightarrow>
          (case buildLinearLinks ts of
             Inl err \<Rightarrow> Inl err
           | Inr links \<Rightarrow>
               Inr (\<lparr>LinearLink.ticketId = Ticket.ticketId t, linearNewUrl = url\<rparr> # links)))"

subsection \<open>The encoding in the specification's words\<close>

text \<open>
  A string is well-formed UTF-16 when every surrogate code unit is part of a pair.
\<close>

fun wellFormedUTF16 :: "jsstring \<Rightarrow> bool" where
  "wellFormedUTF16 [] = True"
| "wellFormedUTF16 (c # cs) =
     (if isTrailSurrogate c then False
      else if isLeadSurrogate c then
        (case cs of [] \<Rightarrow> False | d # ds \<Rightarrow> isTrailSurrogate d \<and> wellFormedUTF16 ds)
      else wellFormedUTF16 cs)"

text \<open>
  URL-component encoding with the space written as \<^verbatim>\<open>+\<close>, code point by code point:
  the space becomes \<^verbatim>\<open>+\<close>, an unreserved code unit stays, and every other code point
  becomes the percent escapes of its UTF-8 octets.
\<close>

definition formEncodeCodePoint :: "nat \<Rightarrow> jsstring" where
  "formEncodeCodePoint v = (if v = 0x20 then [0x2B] else escapeCodePoint v)"

fun formEncode :: "jsstring \<Rightarrow> jsstring" where
  "formEncode [] = []"
| "formEncode (c # cs) =
     (if isUnreserved c then c # formEncode cs
      else if isLeadSurrogate c then
        (case cs of [] \<Rightarrow> [] | d # ds \<Rightarrow> formEncodeCodePoint (pairCodePoint c d) @ formEncode ds)
      else formEncodeCodePoint (unat c) @ formEncode cs)"

text \<open>The link the specification describes for a ticket.\<close>

definition linearLinkFor :: "Ticket \<Rightarrow> LinearLink" where
  "linearLinkFor t =
     \<lparr>LinearLink.ticketId = Ticket.ticketId t,
      linearNewUrl = js ''https://linear.new?title='' @ formEncode (Ticket.title t)
        @ js ''&description='' @ formEncode (ticketMarkdownDescription t)\<rparr>"

text \<open>A ticket whose title is a lone lead surrogate, as \<^verbatim>\<open>JSON.parse('"\\ud800"')\<close> yields it.\<close>

definition ticketLoneSurrogate :: Ticket where
  "ticketLoneSurrogate = (fixtureTicket (js ''T1'') (js ''E1''))\<lparr>Ticket.title := [0xD800]\<rparr>"


section \<open>The text normalizer: cleanPrdText (route module, src/app/page.tsx lines 1021-1053)\<close>

subsection \<open>Regular expressions\<close>

text \<open>
  The two patterns of \<open>cleanPrdText\<close> that are not plain substitutions are run by a
  backtracking matcher, as the engine runs them. A matcher state is the code unit before
  the current position (\<open>None\<close> at the start of the text) and the text that remains;
  \<open>ends r st\<close> lists the states in which a match of \<open>r\<close> started in \<open>st\<close> can end,
  in the order in which backtracking tries them: greedy repetition and option first take
  and then skip, and an iteration that consumes nothing is rejected. \<open>Bol\<close> and \<open>Eol\<close>
  are \<^verbatim>\<open>^\<close> and \<^verbatim>\<open>$\<close> under the \<^verbatim>\<open>m\<close> flag, \<open>Eos\<close> is \<^verbatim>\<open>$\<close> without it.
\<close>

definition isLineTerminator :: "jschar \<Rightarrow> bool" where
  "isLineTerminator c \<longleftrightarrow> c = 0x0A \<or> c = 0x0D \<or> c = 0x2028 \<or> c = 0x2029"

datatype regex =
    Class "jschar \<Rightarrow> bool"
  | Seq regex regex
  | Star regex
  | Opt regex
  | Bol
  | Eol
  | Eos

type_synonym rstate = "jschar option \<times> jsstring"

function ends :: "regex \<Rightarrow> rstate \<Rightarrow> rstate list" where
  "ends (Class P) (p, s) = (case s of [] \<Rightarrow> [] | c # cs \<Rightarrow> if P c then [(Some c, cs)] else [])"
| "ends (Seq a b) st = concat (map (ends b) (ends a st))"
| "ends (Opt a) st = ends a st @ [st]"
| "ends (Star a) st =
     concat (map (\<lambda>st'. if length (snd st') < length (snd st) then ends (Star a) st' else [])
                 (ends a st)) @ [st]"
| "ends Bol (p, s) =
     (case p of None \<Rightarrow> [(p, s)] | Some c \<Rightarrow> if isLineTerminator c then [(p, s)] else [])"
| "ends Eol (p, s) =
     (case s of [] \<Rightarrow> [(p, s)] | c # cs \<Rightarrow> if isLineTerminator c then [(p, s)] else [])"
| "ends Eos (p, s) = (case s of [] \<Rightarrow> [(p, s)] | c # cs \<Rightarrow> [])"
  by pat_completeness auto
termination
  by (relation "measures [\<lambda>(r, st). size r, \<lambda>(r, st). length (snd st)]") auto

declare ends.simps [simp del]

text \<open>\<^verbatim>\<open>r+\<close> and a sequence of patterns.\<close>

definition Plus :: "regex \<Rightarrow> regex" where
  "Plus r = Seq r (Star r)"

fun Seqs :: "regex list \<Rightarrow> regex" where
  "Seqs [] = Opt Eos"
| "Seqs [r] = r"
| "Seqs (r # rs) = Seq r (Seqs rs)"

text \<open>
  \<^verbatim>\<open>s.replace(/r/g, "")\<close>: the text is scanned from the left; at each position the
  first way to match decides. A match is left out and the scan goes on behind it; where
  nothing matches (or only the empty string) the code unit is kept.
\<close>

function removeMatches :: "regex \<Rightarrow> jschar option \<Rightarrow> jsstring \<Rightarrow> jsstring" where
  "removeMatches r p s =
     (case ends r (p, s) of
        (p', s') # rest \<Rightarrow>
          if length s' < length s then removeMatches r p' s'
          else (case s of [] \<Rightarrow> [] | c # cs \<Rightarrow> c # removeMatches r (Some c) cs)
      | [] \<Rightarrow> (case s of [] \<Rightarrow> [] | c # cs \<Rightarrow> c # removeMatches r (Some c) cs))"
  by pat_completeness auto
termination
  by (relation "measure (\<lambda>(r, p, s). length s)") auto

declare removeMatches.simps [simp del]

subsection \<open>The steps of cleanPrdText\<close>

text \<open>\<^verbatim>\<open>s.replace(/\r\n/g, "\n")\<close> and \<^verbatim>\<open>.replace(/\r/g, "\n")\<close>.\<close>

fun crlfToLf :: "jsstring \<Rightarrow> jsstring" where
  "crlfToLf (a # b # r) =
     (if a = 0x0D \<and> b = 0x0A then 0x0A # crlfToLf r else a # crlfToLf (b # r))"
| "crlfToLf s = s"

definition crToLf :: "jsstring \<Rightarrow> jsstring" where
  "crToLf s = map (\<lambda>c. if c = 0x0D then 0x0A else c) s"

text \<open>\<^verbatim>\<open>s.replace(/[\u200B-\u200D\uFEFF]/g, "")\<close> and \<^verbatim>\<open>s.replace(/\u00A0/g, " ")\<close>.\<close>

definition isZeroWidth :: "jschar \<Rightarrow> bool" where
  "isZeroWidth c \<longleftrightarrow> (0x200B \<le> c \<and> c \<le> 0x200D) \<or> c = 0xFEFF"

definition removeZeroWidth :: "jsstring \<Rightarrow> jsstring" where
  "removeZeroWidth s = filter (\<lambda>c. \<not> isZeroWidth c) s"

definition nbspToSpace :: "jsstring \<Rightarrow> jsstring" where
  "nbspToSpace s = map (\<lambda>c. if c = 0xA0 then 0x20 else c) s"

text \<open>
  \<^verbatim>\<open>s.replace(/([A-Za-z])\-\n([A-Za-z])/g, "$1$2")\<close>: a letter, a hyphen, a newline and a
  letter become the two letters, and the scan goes on behind the second letter.
\<close>

definition isLetter :: "jschar \<Rightarrow> bool" where
  "isLetter c \<longleftrightarrow> (0x41 \<le> c \<and> c \<le> 0x5A) \<or> (0x61 \<le> c \<and> c \<le> 0x7A)"

fun joinHyphenated :: "jsstring \<Rightarrow> jsstring" where
  "joinHyphenated (a # b # c # d # r) =
     (if isLetter a \<and> b = 0x2D \<and> c = 0x0A \<and> isLetter d then a # d # joinHyphenated r
      else a # joinHyphenated (b # c # d # r))"
| "joinHyphenated s = s"

text \<open>
  The bullet class of the source holds the code units U+2022, U+00B7, U+25CF, U+25AA,
  U+FE0E (the variation selector that follows U+25AA in the source text) and U+25A0.
\<close>

definition isBullet :: "jschar \<Rightarrow> bool" where
  "isBullet c \<longleftrightarrow>
     c = 0x2022 \<or> c = 0xB7 \<or> c = 0x25CF \<or> c = 0x25AA \<or> c = 0xFE0E \<or> c = 0x25A0"

definition bulletsToDash :: "jsstring \<Rightarrow> jsstring" where
  "bulletsToDash s = map (\<lambda>c. if isBullet c then 0x2D else c) s"

text \<open>
  \<^verbatim>\<open>/^\s*Page\s+\d+\s*(of\s+\d+)?\s*$/gim\<close>. Under the \<^verbatim>\<open>i\<close> flag a letter of the
  pattern matches its two ASCII cases (no other code unit folds to an ASCII letter).
\<close>

definition isDigit :: "jschar \<Rightarrow> bool" where
  "isDigit c \<longleftrightarrow> 0x30 \<le> c \<and> c \<le> 0x39"

definition letterIgnoreCase :: "char \<Rightarrow> regex" where
  "letterIgnoreCase l = Class (\<lambda>c. c = of_char l \<or> c = of_char l + 0x20)"

definition pageMarker :: regex where
  "pageMarker =
     Seqs [Bol, Star (Class isWhiteSpace),
           letterIgnoreCase CHR ''P'', letterIgnoreCase CHR ''A'', letterIgnoreCase CHR ''G'',
           letterIgnoreCase CHR ''E'',
           Plus (Class isWhiteSpace), Plus (Class isDigit), Star (Class isWhiteSpace),
           Opt (Seqs [letterIgnoreCase CHR ''O'', letterIgnoreCase CHR ''F'',
                      Plus (Class isWhiteSpace), Plus (Class isDigit)]),
           Star (Class isWhiteSpace), Eol]"

text \<open>\<^verbatim>\<open>s.replace(/\n{3,}/g, "\n\n")\<close>: a run of three or more newlines becomes two.\<close>

function collapseNewlines :: "jsstring \<Rightarrow> jsstring" where
  "collapseNewlines s =
     (if 3 \<le> length (takeWhile (\<lambda>c. c = 0x0A) s)
      then 0x0A # 0x0A # collapseNewlines (dropWhile (\<lambda>c. c = 0x0A) s)
      else (case s of [] \<Rightarrow> [] | c # cs \<Rightarrow> c # collapseNewlines cs))"
  by pat_completeness auto
termination
proof (relation "measure length")
  show "wf (measure length)" by simp
next
  fix s :: jsstring
  assume "3 \<le> length (takeWhile (\<lambda>c. c = 0x0A) s)"
  then have "length (dropWhile (\<lambda>c. c = 0x0A) s) < length s"
    by (cases s) (auto simp: length_dropWhile_le less_Suc_eq_le split: if_splits)
  then show "(dropWhile (\<lambda>c. c = 0x0A) s, s) \<in> measure length" by simp
next
  fix s :: jsstring and c cs
  assume "s = c # cs"
  then show "(cs, s) \<in> measure length" by simp
qed

declare collapseNewlines.simps [simp del]

text \<open>\<^verbatim>\<open>s.split("\n")\<close>, and \<^verbatim>\<open>line.replace(/\s+$/g, "")\<close> on each line.\<close>

fun splitOn :: "jschar \<Rightarrow> jsstring \<Rightarrow> jsstring list" where
  "splitOn d [] = [[]]"
| "splitOn d (c # cs) =
     (if c = d then [] # splitOn d cs
      else (case splitOn d cs of [] \<Rightarrow> [[c]] | l # ls \<Rightarrow> (c # l) # ls))"

definition trailingSpace :: regex where
  "trailingSpace = Seq (Plus (Class isWhiteSpace)) Eos"

definition trimLines :: "jsstring \<Rightarrow> jsstring" where
  "trimLines s = join newline (map (removeMatches trailingSpace None) (splitOn 0x0A s))"

definition cleanPrdText :: "jsstring \<Rightarrow> jsstring" where
  "cleanPrdText raw =
     trim (trimLines (collapseNewlines (removeMatches pageMarker None
       (bulletsToDash (joinHyphenated (nbspToSpace (removeZeroWidth
         (crToLf (crlfToLf raw)))))))))"

text \<open>
  What the substitutions leave behind: no carriage return, no zero-width character, no
  non-breaking space and no bullet glyph.
\<close>

definition isCleanUnit :: "jschar \<Rightarrow> bool" where
  "isCleanUnit c \<longleftrightarrow> c \<noteq> 0x0D \<and> \<not> isZeroWidth c \<and> c \<noteq> 0xA0 \<and> \<not> isBullet c"

text \<open>Two lines that hold one space each, between the lines \<^verbatim>\<open>a\<close> and \<^verbatim>\<open>b\<close>.\<close>

definition textBlankLines :: jsstring where
  "textBlankLines = js ''a'' @ newline @ js '' '' @ newline @ js '' '' @ newline @ js ''b''"


section \<open>The plan-generation endpoint: POST (route module, src/app/page.tsx lines 1008-1200)\<close>

subsection \<open>The request\<close>



record PlanRequest =
  prd :: jsstring
  productName :: "jsstring option"
  targetUser :: "jsstring option"
  platform :: "Platform option"
  constraints :: "jsstring option"
  releaseDate :: "jsstring option"


subsection \<open>The prompts\<close>







subsection \<open>Errors and the oracle\<close>






subsection \<open>The final validation\<close>

record Exports =
  markdown :: jsstring
  linear :: "LinearLink list"











subsection \<open>The handler\<close>






subsection \<open>A request and two oracles used as examples\<close>







section \<open>Properties of the repair pass\<close>

subsection \<open>Trimming and generated ids\<close>

lemma trimEnd_prefix: "\<exists>zs. u = trimEnd u @ zs"
proof -
  have "u = trimEnd u @ rev (takeWhile isWhiteSpace (rev u))"
    unfolding trimEnd_def by (metis rev_append rev_rev_ident takeWhile_dropWhile_id)
  then show ?thesis ..
qed

lemma trimEnd_last: "trimEnd u \<noteq> [] \<Longrightarrow> \<not> isWhiteSpace (last (trimEnd u))"
  unfolding trimEnd_def by (simp add: last_rev hd_dropWhile)

lemma trim_hd: assumes "trim s \<noteq> []" shows "\<not> isWhiteSpace (hd (trim s))"
proof -
  let ?u = "trimStart s"
  obtain zs where u: "?u = trim s @ zs" using trimEnd_prefix [of ?u] by (auto simp: trim_def)
  with assms have "?u \<noteq> []" by auto
  then have "\<not> isWhiteSpace (hd ?u)" unfolding trimStart_def by (simp add: hd_dropWhile)
  moreover have "hd ?u = hd (trim s)" using u assms by (metis hd_append2)
  ultimately show ?thesis by simp
qed

lemma trim_last: "trim s \<noteq> [] \<Longrightarrow> \<not> isWhiteSpace (last (trim s))"
  unfolding trim_def by (rule trimEnd_last)

lemma trim_fixed:
  assumes "x \<noteq> []" "\<not> isWhiteSpace (hd x)" "\<not> isWhiteSpace (last x)"
  shows "trim x = x"
proof -
  have 1: "trimStart x = x" using assms by (cases x) (auto simp: trimStart_def)
  have "rev x \<noteq> []" "\<not> isWhiteSpace (hd (rev x))" using assms by (auto simp: hd_rev)
  then have "dropWhile isWhiteSpace (rev x) = rev x" by (cases "rev x") auto
  then have "trimEnd x = x" by (simp add: trimEnd_def)
  with 1 show ?thesis by (simp add: trim_def)
qed

lemma trim_idem: "trim (trim s) = trim s"
proof (cases "trim s = []")
  case True
  have "trim [] = []" by (simp add: trim_def trimStart_def trimEnd_def)
  with True show ?thesis by simp
next
  case False
  then show ?thesis by (intro trim_fixed trim_hd trim_last)
qed

lemma digit_cases:
  assumes "d < 10"
  shows "d = 0 \<or> d = 1 \<or> d = 2 \<or> d = 3 \<or> d = 4 \<or> d = 5 \<or> d = 6 \<or> d = 7 \<or> d = 8 \<or> d = (9::nat)"
  using assms by arith

lemma digit_not_space: "d < 10 \<Longrightarrow> \<not> isWhiteSpace (digit d)"
  using digit_cases [of d] by (auto simp: digit_def isWhiteSpace_def)

lemma E_not_space: "\<not> isWhiteSpace (0x45)" "\<not> isWhiteSpace 0x54"
  by (simp_all add: isWhiteSpace_def)

lemma js_E: "js ''E'' = [0x45]" "js ''T'' = [0x54]" "js ''E1'' = [0x45, 0x31]"
  by (simp_all add: js_def)

lemma numberToString_nonempty: "numberToString n \<noteq> []"
  by (subst numberToString.simps) simp

lemma numberToString_last: "\<exists>d<10. last (numberToString n) = digit d"
proof (cases "n < 10")
  case True
  then show ?thesis by (subst numberToString.simps) auto
next
  case False
  have "n mod 10 < 10" by simp
  moreover have "last (numberToString n) = digit (n mod 10)"
    using False by (subst numberToString.simps) simp
  ultimately show ?thesis by blast
qed

lemma generated_id_fixed:
  assumes "\<not> isWhiteSpace c"
  shows "trim (c # numberToString n) = c # numberToString n"
proof (rule trim_fixed)
  show "c # numberToString n \<noteq> []" by simp
  show "\<not> isWhiteSpace (hd (c # numberToString n))" using assms by simp
  obtain d where "d < 10" "last (numberToString n) = digit d"
    using numberToString_last by blast
  then show "\<not> isWhiteSpace (last (c # numberToString n))"
    using numberToString_nonempty [of n] by (simp add: digit_not_space)
qed

lemma trimmedOr_nonempty: "fb \<noteq> [] \<Longrightarrow> trimmedOr x fb \<noteq> []"
  by (simp add: trimmedOr_def)

lemma trimmedOr_trimmed: "trim fb = fb \<Longrightarrow> trim (trimmedOr x fb) = trimmedOr x fb"
  by (simp add: trimmedOr_def trim_idem)

lemma trimmedOr_keep: "x \<noteq> [] \<Longrightarrow> trim x = x \<Longrightarrow> trimmedOr x fb = x"
  by (simp add: trimmedOr_def)

lemma wellFormedId_E: "wellFormedId (trimmedOr x (js ''E'' @ numberToString n))"
  unfolding wellFormedId_def js_E
  by (simp add: trimmedOr_nonempty trimmedOr_trimmed generated_id_fixed E_not_space)

lemma wellFormedId_T: "wellFormedId (trimmedOr x (js ''T'' @ numberToString n))"
  unfolding wellFormedId_def js_E
  by (simp add: trimmedOr_nonempty trimmedOr_trimmed generated_id_fixed E_not_space)

lemma wellFormedId_E1: "wellFormedId (js ''E1'')"
  unfolding wellFormedId_def js_E
  by (simp add: trim_def trimStart_def trimEnd_def isWhiteSpace_def)

lemma length_repairEpics [simp]: "length (repairEpics i es) = length es"
  by (induction es arbitrary: i) auto

lemma repairEpics_nth:
  "k < length es \<Longrightarrow> repairEpics i es ! k =
     (es ! k)\<lparr>Epic.epicId := trimmedOr (Epic.epicId (es ! k)) (js ''E'' @ numberToString (i + k + 1))\<rparr>"
proof (induction es arbitrary: i k)
  case Nil
  then show ?case by simp
next
  case (Cons e es)
  then show ?case by (cases k) auto
qed

lemma repairEpics_wellFormed:
  "e \<in> set (repairEpics i es) \<Longrightarrow> wellFormedId (Epic.epicId e)"
  by (induction es arbitrary: i) (auto simp: wellFormedId_E)

lemma repairEpics_fixed:
  "\<forall>e \<in> set es. wellFormedId (Epic.epicId e) \<Longrightarrow> repairEpics i es = es"
  by (induction es arbitrary: i) (auto simp: wellFormedId_def trimmedOr_keep)

lemma length_repairTickets [simp]: "length (repairTickets es i ts) = length ts"
  by (induction ts arbitrary: i) auto

lemma repairTickets_nth:
  "k < length ts \<Longrightarrow> repairTickets es i ts ! k = repairTicket es (i + k) (ts ! k)"
proof (induction ts arbitrary: i k)
  case Nil
  then show ?case by simp
next
  case (Cons t ts)
  then show ?case by (cases k) auto
qed

lemma set_repairTickets:
  "t' \<in> set (repairTickets es i ts) \<Longrightarrow> \<exists>k t. t' = repairTicket es k t"
  by (induction ts arbitrary: i) auto

lemma firstEpicId_repaired:
  "\<forall>e \<in> set es. wellFormedId (Epic.epicId e) \<Longrightarrow> firstEpicId es = fallbackEpicId es"
  by (cases es) (auto simp: firstEpicId_def fallbackEpicId_def wellFormedId_def)

lemma fallbackEpicId_mem:
  "es \<noteq> [] \<Longrightarrow> fallbackEpicId es \<in> Epic.epicId ` set es"
  by (cases es) (auto simp: fallbackEpicId_def)

lemma repairTicket_epicId:
  assumes "\<forall>e \<in> set es. wellFormedId (Epic.epicId e)"
  shows "Ticket.epicId (repairTicket es i t) =
           (if trim (Ticket.epicId t) \<in> Epic.epicId ` set es then trim (Ticket.epicId t)
            else fallbackEpicId es)"
proof -
  have f: "firstEpicId es = fallbackEpicId es" using assms by (rule firstEpicId_repaired)
  have ne: "[] \<notin> Epic.epicId ` set es" using assms by (auto simp: wellFormedId_def)
  show ?thesis
  proof (cases "trim (Ticket.epicId t) = []")
    case True
    then show ?thesis using ne by (auto simp: repairTicket_def Let_def trimmedOr_def f)
  next
    case False
    then show ?thesis by (auto simp: repairTicket_def Let_def trimmedOr_def f)
  qed
qed

lemma repairTicket_ticketId:
  "Ticket.ticketId (repairTicket es i t) =
     trimmedOr (Ticket.ticketId t) (js ''T'' @ numberToString (i + 1))"
  by (simp add: repairTicket_def Let_def)


lemma idsFor_simps [simp]:
  "idsFor k [] = []"
  "idsFor k (t # ts) = (if Ticket.epicId t = k then Ticket.ticketId t # idsFor k ts else idsFor k ts)"
  by (simp_all add: idsFor_def)

lemma groupTickets_lookup:
  "groupTickets obj ts = Inr m \<Longrightarrow>
     m k = (case obj k of Some old \<Rightarrow> Some (old @ idsFor k ts)
            | None \<Rightarrow> if idsFor k ts = [] then None else Some (idsFor k ts))"
proof (induction ts arbitrary: obj)
  case Nil
  then show ?case by (auto split: option.splits)
next
  case (Cons t ts)
  show ?case
  proof (cases "getProperty obj (Ticket.epicId t)")
    case (Own ids)
    then have o: "obj (Ticket.epicId t) = Some ids"
      by (auto simp: getProperty_def split: option.splits if_splits)
    from Cons.prems Own
    have "groupTickets (obj(Ticket.epicId t \<mapsto> ids @ [Ticket.ticketId t])) ts = Inr m" by simp
    from Cons.IH [OF this] o show ?thesis by (auto split: option.splits)
  next
    case (Inherited k')
    with Cons.prems show ?thesis by simp
  next
    case Undefined
    then have o: "obj (Ticket.epicId t) = None"
      by (auto simp: getProperty_def split: option.splits if_splits)
    from Cons.prems Undefined
    have "groupTickets (obj(Ticket.epicId t \<mapsto> [Ticket.ticketId t])) ts = Inr m" by simp
    from Cons.IH [OF this] o show ?thesis by (auto split: option.splits)
  qed
qed

lemma groupTickets_returns:
  "\<forall>t \<in> set ts. Ticket.epicId t \<in> set objectPrototypeKeys \<longrightarrow> Ticket.epicId t \<in> dom obj
     \<Longrightarrow> \<exists>m. groupTickets obj ts = Inr m"
proof (induction ts arbitrary: obj)
  case Nil
  then show ?case by simp
next
  case (Cons t ts)
  show ?case
  proof (cases "getProperty obj (Ticket.epicId t)")
    case (Own ids)
    have "\<exists>m. groupTickets (obj(Ticket.epicId t \<mapsto> ids @ [Ticket.ticketId t])) ts = Inr m"
      by (rule Cons.IH) (use Cons.prems in auto)
    with Own show ?thesis by simp
  next
    case (Inherited k')
    with Cons.prems show ?thesis
      by (auto simp: getProperty_def split: option.splits if_splits)
  next
    case Undefined
    have "\<exists>m. groupTickets (obj(Ticket.epicId t \<mapsto> [Ticket.ticketId t])) ts = Inr m"
      by (rule Cons.IH) (use Cons.prems in auto)
    with Undefined show ?thesis by simp
  qed
qed

lemma groupTickets_throws:
  "groupTickets obj ts = Inr m \<Longrightarrow> t \<in> set ts \<Longrightarrow>
     Ticket.epicId t \<in> set objectPrototypeKeys \<Longrightarrow> Ticket.epicId t \<in> dom obj"
proof (induction ts arbitrary: obj)
  case Nil
  then show ?case by simp
next
  case (Cons u ts)
  show ?case
  proof (cases "getProperty obj (Ticket.epicId u)")
    case (Own ids)
    then have o: "obj (Ticket.epicId u) = Some ids"
      by (auto simp: getProperty_def split: option.splits if_splits)
    from Cons.prems Own
    have g: "groupTickets (obj(Ticket.epicId u \<mapsto> ids @ [Ticket.ticketId u])) ts = Inr m" by simp
    show ?thesis
    proof (cases "t = u")
      case True
      with o show ?thesis by auto
    next
      case False
      with Cons.prems have "t \<in> set ts" by simp
      from Cons.IH [OF g this Cons.prems(3)] o show ?thesis by (auto split: if_splits)
    qed
  next
    case (Inherited k')
    with Cons.prems show ?thesis by simp
  next
    case Undefined
    then have o: "obj (Ticket.epicId u) = None" "Ticket.epicId u \<notin> set objectPrototypeKeys"
      by (auto simp: getProperty_def split: option.splits if_splits)
    from Cons.prems Undefined
    have g: "groupTickets (obj(Ticket.epicId u \<mapsto> [Ticket.ticketId u])) ts = Inr m" by simp
    show ?thesis
    proof (cases "t = u")
      case True
      with o Cons.prems show ?thesis by auto
    next
      case False
      with Cons.prems have "t \<in> set ts" by simp
      from Cons.IH [OF g this Cons.prems(3)] o Cons.prems(3) show ?thesis
        by (auto split: if_splits)
    qed
  qed
qed

lemma withTickets_grouped:
  assumes "groupTickets Map.empty ts = Inr m"
  shows "Epic.tickets (withTickets m e) =
           (if idsFor (Epic.epicId e) ts \<noteq> [] then StrArr (idsFor (Epic.epicId e) ts)
            else if Epic.epicId e \<in> set objectPrototypeKeys then ProtoMember (Epic.epicId e)
            else StrArr [])"
  using groupTickets_lookup [OF assms, of "Epic.epicId e"]
  by (simp add: withTickets_def getProperty_def)

lemma withTickets_epicId [simp]: "Epic.epicId (withTickets m e) = Epic.epicId e"
  by (simp add: withTickets_def)

lemma withTickets_idem [simp]: "withTickets m (withTickets m e) = withTickets m e"
  by (simp add: withTickets_def)

lemma normalizeIds_Inr:
  assumes "normalizeIds plan = Inr q"
  obtains m where
    "groupTickets Map.empty (repairTickets (repairEpics 0 (PlanCore.epics plan)) 0 (PlanCore.tickets plan)) = Inr m"
    "q = plan\<lparr>PlanCore.epics := map (withTickets m) (repairEpics 0 (PlanCore.epics plan)),
              PlanCore.tickets := repairTickets (repairEpics 0 (PlanCore.epics plan)) 0 (PlanCore.tickets plan)\<rparr>"
  using assms by (auto simp: normalizeIds_def Let_def split: sum.splits)


lemma digitValue_digit: "d < 10 \<Longrightarrow> digitValue (digit d) = d"
  using digit_cases [of d] by (auto simp: digitValue_def digit_def)

lemma decimalValue_numberToString: "decimalValue (numberToString n) = n"
proof (induction n rule: numberToString.induct)
  case (1 n)
  show ?case
  proof (cases "n < 10")
    case True
    then show ?thesis
      by (subst numberToString.simps) (simp add: decimalValue_def digitValue_digit)
  next
    case False
    then have "decimalValue (numberToString (n div 10)) = n div 10" by (rule "1.IH")
    moreover have "n mod 10 < 10" by simp
    ultimately show ?thesis using False
      by (subst numberToString.simps) (simp add: decimalValue_def digitValue_digit)
  qed
qed

lemma numberToString_inj: "numberToString n = numberToString m \<Longrightarrow> n = m"
  by (metis decimalValue_numberToString)

lemma repairedIds_distinct:
  fixes raw :: "jsstring list" and p :: jsstring
  assumes a: "\<forall>i<length raw. \<forall>j<length raw. i \<noteq> j \<and> trim (raw ! i) \<noteq> [] \<and> trim (raw ! j) \<noteq> []
                 \<longrightarrow> trim (raw ! i) \<noteq> trim (raw ! j)"
      and b: "\<forall>i<length raw. \<forall>j<length raw. trim (raw ! i) = []
                 \<longrightarrow> trim (raw ! j) \<noteq> p @ numberToString (i + 1)"
      and len: "length out = length raw"
      and out: "\<forall>i<length raw. out ! i = trimmedOr (raw ! i) (p @ numberToString (i + 1))"
  shows "distinct out"
proof (unfold distinct_conv_nth, intro allI impI)
  fix i j assume ij: "i < length out" "j < length out" "i \<noteq> j"
  then have i: "i < length raw" and j: "j < length raw" using len by simp_all
  have oi: "out ! i = trimmedOr (raw ! i) (p @ numberToString (i + 1))" using out i by blast
  have oj: "out ! j = trimmedOr (raw ! j) (p @ numberToString (j + 1))" using out j by blast
  show "out ! i \<noteq> out ! j"
  proof (cases "trim (raw ! i) = []")
    case ei: True
    show ?thesis
    proof (cases "trim (raw ! j) = []")
      case True
      have "numberToString (i + 1) \<noteq> numberToString (j + 1)"
        using ij(3) numberToString_inj [of "i + 1" "j + 1"] by auto
      with ei True show ?thesis by (simp add: oi oj trimmedOr_def)
    next
      case False
      have "trim (raw ! j) \<noteq> p @ numberToString (i + 1)" using b i j ei by blast
      with ei False show ?thesis by (simp add: oi oj trimmedOr_def)
    qed
  next
    case ni: False
    show ?thesis
    proof (cases "trim (raw ! j) = []")
      case True
      have "trim (raw ! i) \<noteq> p @ numberToString (j + 1)" using b i j True by blast
      with ni True show ?thesis by (simp add: oi oj trimmedOr_def)
    next
      case False
      have "trim (raw ! i) \<noteq> trim (raw ! j)" using a i j ij(3) ni False by blast
      with ni False show ?thesis by (simp add: oi oj trimmedOr_def)
    qed
  qed
qed

lemma normalizeIds_epicIds:
  assumes "normalizeIds plan = Inr q"
  shows "length (PlanCore.epics q) = length (PlanCore.epics plan)"
    and "\<forall>i<length (PlanCore.epics plan). Epic.epicId (PlanCore.epics q ! i) =
           trimmedOr (Epic.epicId (PlanCore.epics plan ! i)) (js ''E'' @ numberToString (i + 1))"
    and "map Epic.epicId (PlanCore.epics q) = map Epic.epicId (repairEpics 0 (PlanCore.epics plan))"
proof -
  from assms obtain m where q: "q = plan\<lparr>PlanCore.epics := map (withTickets m) (repairEpics 0 (PlanCore.epics plan)),
              PlanCore.tickets := repairTickets (repairEpics 0 (PlanCore.epics plan)) 0 (PlanCore.tickets plan)\<rparr>"
    by (rule normalizeIds_Inr)
  show "length (PlanCore.epics q) = length (PlanCore.epics plan)" by (simp add: q)
  show "\<forall>i<length (PlanCore.epics plan). Epic.epicId (PlanCore.epics q ! i) =
           trimmedOr (Epic.epicId (PlanCore.epics plan ! i)) (js ''E'' @ numberToString (i + 1))"
    by (simp add: q repairEpics_nth)
  show "map Epic.epicId (PlanCore.epics q) = map Epic.epicId (repairEpics 0 (PlanCore.epics plan))"
    by (simp add: q comp_def)
qed

lemma normalizeIds_tickets:
  assumes "normalizeIds plan = Inr q"
  shows "PlanCore.tickets q = repairTickets (repairEpics 0 (PlanCore.epics plan)) 0 (PlanCore.tickets plan)"
  using assms by (rule normalizeIds_Inr) simp

lemma normalizeIds_epic_wellFormed:
  assumes "normalizeIds plan = Inr q" "e \<in> set (PlanCore.epics q)"
  shows "wellFormedId (Epic.epicId e)"
proof -
  from assms(2) have "Epic.epicId e \<in> set (map Epic.epicId (PlanCore.epics q))" by simp
  then have "Epic.epicId e \<in> set (map Epic.epicId (repairEpics 0 (PlanCore.epics plan)))"
    by (simp only: normalizeIds_epicIds(3) [OF assms(1)])
  then show ?thesis by (auto dest: repairEpics_wellFormed)
qed

lemma normalizeIds_ticket_fields:
  assumes "normalizeIds plan = Inr q" "i < length (PlanCore.tickets plan)"
  shows "Ticket.ticketId (PlanCore.tickets q ! i) =
           trimmedOr (Ticket.ticketId (PlanCore.tickets plan ! i)) (js ''T'' @ numberToString (i + 1))"
    and "Ticket.epicId (PlanCore.tickets q ! i) =
           (if trim (Ticket.epicId (PlanCore.tickets plan ! i)) \<in> Epic.epicId ` set (PlanCore.epics q)
            then trim (Ticket.epicId (PlanCore.tickets plan ! i))
            else fallbackEpicId (PlanCore.epics q))"
proof -
  let ?es = "repairEpics 0 (PlanCore.epics plan)"
  have wf: "\<forall>e \<in> set ?es. wellFormedId (Epic.epicId e)" by (auto dest: repairEpics_wellFormed)
  have ids: "Epic.epicId ` set (PlanCore.epics q) = Epic.epicId ` set ?es"
    using normalizeIds_epicIds(3) [OF assms(1)] by (metis list.set_map)
  have fb: "fallbackEpicId (PlanCore.epics q) = fallbackEpicId ?es"
    using normalizeIds_epicIds(3) [OF assms(1)]
    by (cases "PlanCore.epics q"; cases ?es) (auto simp: fallbackEpicId_def)
  have t: "PlanCore.tickets q ! i = repairTicket ?es i (PlanCore.tickets plan ! i)"
    using assms(2) by (simp add: normalizeIds_tickets [OF assms(1)] repairTickets_nth)
  show "Ticket.ticketId (PlanCore.tickets q ! i) =
           trimmedOr (Ticket.ticketId (PlanCore.tickets plan ! i)) (js ''T'' @ numberToString (i + 1))"
    by (simp add: t repairTicket_ticketId)
  show "Ticket.epicId (PlanCore.tickets q ! i) =
           (if trim (Ticket.epicId (PlanCore.tickets plan ! i)) \<in> Epic.epicId ` set (PlanCore.epics q)
            then trim (Ticket.epicId (PlanCore.tickets plan ! i))
            else fallbackEpicId (PlanCore.epics q))"
    by (simp only: t repairTicket_epicId [OF wf] ids fb)
qed


lemmas eval_normalizeIds =
  normalizeIds_def Let_def repairTicket_def trimmedOr_def trim_def trimStart_def trimEnd_def
  js_def isWhiteSpace_def numberToString.simps digit_def objectPrototypeKeys_def getProperty_def
  withTickets_def firstEpicId_def fixturePlan_def fixtureEpic_def fixtureTicket_def

subsection \<open>Grouping and a second pass\<close>

lemma withTickets_eq:
  "Epic.epicId e = Epic.epicId e' \<Longrightarrow> Epic.tickets (withTickets m e) = Epic.tickets (withTickets m e')"
  by (simp add: withTickets_def)

lemma normalizeIds_epic_tickets:
  assumes "normalizeIds plan = Inr q" and "e \<in> set (PlanCore.epics q)"
  shows "Epic.tickets e =
           (if idsFor (Epic.epicId e) (PlanCore.tickets q) \<noteq> []
            then StrArr (idsFor (Epic.epicId e) (PlanCore.tickets q))
            else if Epic.epicId e \<in> set objectPrototypeKeys then ProtoMember (Epic.epicId e)
            else StrArr [])"
proof -
  from assms(1) obtain m where
    m: "groupTickets Map.empty (repairTickets (repairEpics 0 (PlanCore.epics plan)) 0 (PlanCore.tickets plan)) = Inr m"
    and q: "q = plan\<lparr>PlanCore.epics := map (withTickets m) (repairEpics 0 (PlanCore.epics plan)),
              PlanCore.tickets := repairTickets (repairEpics 0 (PlanCore.epics plan)) 0 (PlanCore.tickets plan)\<rparr>"
    by (rule normalizeIds_Inr)
  from assms(2) q obtain e0 where e: "e = withTickets m e0" by auto
  have t: "PlanCore.tickets q = repairTickets (repairEpics 0 (PlanCore.epics plan)) 0 (PlanCore.tickets plan)"
    by (simp add: q)
  show ?thesis unfolding e t using withTickets_grouped [OF m, of e0] by simp
qed

text \<open>
  Away from the property names of \<^verbatim>\<open>Object.prototype\<close> the derived list is exactly the
  ids of the tickets that refer to the epic, in ticket order.
\<close>

lemma normalizeIds_epic_tickets_derived:
  assumes "normalizeIds plan = Inr q" and "e \<in> set (PlanCore.epics q)"
    and "Epic.epicId e \<notin> set objectPrototypeKeys"
  shows "Epic.tickets e =
           StrArr (map Ticket.ticketId
             (filter (\<lambda>t. Ticket.epicId t = Epic.epicId e) (PlanCore.tickets q)))"
  using normalizeIds_epic_tickets [OF assms(1,2)] assms(3) by (auto simp: idsFor_def)

lemma normalizeIds_returns_iff:
  "(\<exists>q. normalizeIds plan = Inr q) \<longleftrightarrow>
     (\<forall>t \<in> set (repairTickets (repairEpics 0 (PlanCore.epics plan)) 0 (PlanCore.tickets plan)).
        Ticket.epicId t \<notin> set objectPrototypeKeys)"
proof
  assume "\<exists>q. normalizeIds plan = Inr q"
  then obtain q where "normalizeIds plan = Inr q" ..
  then obtain m where
    m: "groupTickets Map.empty (repairTickets (repairEpics 0 (PlanCore.epics plan)) 0 (PlanCore.tickets plan)) = Inr m"
    by (rule normalizeIds_Inr)
  show "\<forall>t \<in> set (repairTickets (repairEpics 0 (PlanCore.epics plan)) 0 (PlanCore.tickets plan)).
        Ticket.epicId t \<notin> set objectPrototypeKeys"
    using groupTickets_throws [OF m] by auto
next
  assume "\<forall>t \<in> set (repairTickets (repairEpics 0 (PlanCore.epics plan)) 0 (PlanCore.tickets plan)).
        Ticket.epicId t \<notin> set objectPrototypeKeys"
  then have "\<exists>m. groupTickets Map.empty (repairTickets (repairEpics 0 (PlanCore.epics plan)) 0 (PlanCore.tickets plan)) = Inr m"
    by (intro groupTickets_returns) auto
  then show "\<exists>q. normalizeIds plan = Inr q"
    by (auto simp: normalizeIds_def Let_def)
qed

lemma repairTicket_cong:
  "map Epic.epicId es = map Epic.epicId es' \<Longrightarrow> repairTicket es i t = repairTicket es' i t"
proof -
  assume a: "map Epic.epicId es = map Epic.epicId es'"
  then have f: "firstEpicId es = firstEpicId es'"
    by (cases es; cases es') (auto simp: firstEpicId_def)
  show ?thesis unfolding repairTicket_def f a by (rule refl)
qed

lemma repairTickets_cong:
  "map Epic.epicId es = map Epic.epicId es' \<Longrightarrow> repairTickets es i ts = repairTickets es' i ts"
  by (induction ts arbitrary: i) (auto dest: repairTicket_cong)

lemma repairTicket_fixed:
  assumes wf: "\<forall>e \<in> set es. wellFormedId (Epic.epicId e)"
    and tid: "wellFormedId (Ticket.ticketId t)"
    and eid: "Ticket.epicId t \<in> Epic.epicId ` set es \<or> (es = [] \<and> Ticket.epicId t = js ''E1'')"
  shows "repairTicket es i t = t"
proof -
  have weid: "wellFormedId (Ticket.epicId t)"
    using eid wf wellFormedId_E1 by auto
  have 1: "Ticket.ticketId (repairTicket es i t) = Ticket.ticketId t"
    using tid by (simp add: repairTicket_ticketId wellFormedId_def trimmedOr_keep)
  have tr: "trim (Ticket.epicId t) = Ticket.epicId t" using weid by (simp add: wellFormedId_def)
  have 2: "Ticket.epicId (repairTicket es i t) = Ticket.epicId t"
    using eid by (auto simp: repairTicket_epicId [OF wf] tr fallbackEpicId_def)
  have "repairTicket es i t =
          t\<lparr>Ticket.ticketId := Ticket.ticketId (repairTicket es i t),
            Ticket.epicId := Ticket.epicId (repairTicket es i t)\<rparr>"
    by (simp add: repairTicket_def Let_def)
  then show ?thesis by (simp add: 1 2)
qed

lemma repairTickets_fixed:
  assumes "\<forall>e \<in> set es. wellFormedId (Epic.epicId e)"
    and "\<forall>t \<in> set ts. wellFormedId (Ticket.ticketId t) \<and>
           (Ticket.epicId t \<in> Epic.epicId ` set es \<or> (es = [] \<and> Ticket.epicId t = js ''E1''))"
  shows "repairTickets es i ts = ts"
  using assms(2) by (induction ts arbitrary: i) (auto simp: repairTicket_fixed [OF assms(1)])

lemma repairTicket_result:
  assumes wf: "\<forall>e \<in> set es. wellFormedId (Epic.epicId e)"
  shows "wellFormedId (Ticket.ticketId (repairTicket es i t)) \<and>
         (Ticket.epicId (repairTicket es i t) \<in> Epic.epicId ` set es \<or>
          (es = [] \<and> Ticket.epicId (repairTicket es i t) = js ''E1''))"
proof -
  have "es \<noteq> [] \<Longrightarrow> fallbackEpicId es \<in> Epic.epicId ` set es" by (rule fallbackEpicId_mem)
  moreover have "es = [] \<Longrightarrow> fallbackEpicId es = js ''E1''" by (simp add: fallbackEpicId_def)
  ultimately show ?thesis
    by (auto simp: repairTicket_ticketId wellFormedId_T repairTicket_epicId [OF wf])
qed


lemma all_less_Suc_shift: "(\<forall>i<Suc n. P i) \<longleftrightarrow> P 0 \<and> (\<forall>i<n. P (Suc i))"
  by (auto simp: less_Suc_eq_0_disj)

lemma idsRepairable_planScenario:
  "idsRepairable (js ''E'') (map Epic.epicId (PlanCore.epics planScenario))"
  "idsRepairable (js ''T'') (map Ticket.ticketId (PlanCore.tickets planScenario))"
  by (simp_all add: idsRepairable_def planScenario_def fixturePlan_def fixtureEpic_def
      fixtureTicket_def all_less_Suc_shift trim_def trimStart_def trimEnd_def js_def
      isWhiteSpace_def numberToString.simps digit_def)


subsection \<open>Identifier assignment\<close>

lemma normalizeIds_planScenario: "normalizeIds planScenario = Inr planScenarioRepaired"
  unfolding planScenario_def planScenarioRepaired_def by (simp add: eval_normalizeIds)

text \<open>
  Claim C2. For every raw plan the pass should return the plan with its ids assigned. For
  the plan with the single epic \<^verbatim>\<open>constructor\<close> and one ticket that refers to it, the
  pass assigns no id: \<^verbatim>\<open>ticketsByEpic[t.epicId] ||= []\<close> finds the inherited member
  \<^verbatim>\<open>Object.prototype.constructor\<close>, which is truthy and has no \<^verbatim>\<open>push\<close>, and the
  pass throws a TypeError. (\<open>normalizeIds_returns_iff\<close> says on which plans the pass
  returns, and \<open>normalizeIds_assigns_ids\<close> is the claim for those.)
\<close>

theorem normalizeIds_throws_on_inherited_key:
  "normalizeIds planInheritedKeyTicket =
     Inl (TypeError (js ''ticketsByEpic[t.epicId].push is not a function''))"
  unfolding planInheritedKeyTicket_def by (simp add: eval_normalizeIds)

text \<open>
  Whenever the repair pass returns a plan, it has as many epics and tickets as
  the raw plan; the epic at position \<open>i\<close> carries its trimmed raw id if that is non-empty
  and \<^verbatim>\<open>"E"\<close> followed by \<open>i + 1\<close> otherwise; the ticket at position \<open>i\<close> carries its
  trimmed raw id if that is non-empty and \<^verbatim>\<open>"T"\<close> followed by \<open>i + 1\<close> otherwise; its
  epic id is its trimmed raw epic id if that is one of the repaired epic ids, and
  otherwise the first repaired epic's id, or \<^verbatim>\<open>"E1"\<close> when there is no epic. So with at
  least one epic every ticket refers to a repaired epic id.
\<close>

lemma normalizeIds_assigns_ids:
  assumes "normalizeIds plan = Inr q"
  shows "length (PlanCore.epics q) = length (PlanCore.epics plan) \<and>
         length (PlanCore.tickets q) = length (PlanCore.tickets plan) \<and>
         (\<forall>i<length (PlanCore.epics plan).
            Epic.epicId (PlanCore.epics q ! i) =
              (if trim (Epic.epicId (PlanCore.epics plan ! i)) \<noteq> []
               then trim (Epic.epicId (PlanCore.epics plan ! i))
               else js ''E'' @ numberToString (i + 1))) \<and>
         (\<forall>i<length (PlanCore.tickets plan).
            Ticket.ticketId (PlanCore.tickets q ! i) =
              (if trim (Ticket.ticketId (PlanCore.tickets plan ! i)) \<noteq> []
               then trim (Ticket.ticketId (PlanCore.tickets plan ! i))
               else js ''T'' @ numberToString (i + 1)) \<and>
            Ticket.epicId (PlanCore.tickets q ! i) =
              (if trim (Ticket.epicId (PlanCore.tickets plan ! i))
                    \<in> Epic.epicId ` set (PlanCore.epics q)
               then trim (Ticket.epicId (PlanCore.tickets plan ! i))
               else case PlanCore.epics q of [] \<Rightarrow> js ''E1'' | e # _ \<Rightarrow> Epic.epicId e)) \<and>
         (PlanCore.epics plan \<noteq> [] \<longrightarrow>
            (\<forall>t \<in> set (PlanCore.tickets q).
               Ticket.epicId t \<in> Epic.epicId ` set (PlanCore.epics q)))"
proof (intro conjI allI impI ballI)
  show le: "length (PlanCore.epics q) = length (PlanCore.epics plan)"
    by (rule normalizeIds_epicIds(1) [OF assms])
  show lt: "length (PlanCore.tickets q) = length (PlanCore.tickets plan)"
    by (simp add: normalizeIds_tickets [OF assms])
  show "Epic.epicId (PlanCore.epics q ! i) =
              (if trim (Epic.epicId (PlanCore.epics plan ! i)) \<noteq> []
               then trim (Epic.epicId (PlanCore.epics plan ! i))
               else js ''E'' @ numberToString (i + 1))"
    if "i < length (PlanCore.epics plan)" for i
    using normalizeIds_epicIds(2) [OF assms] that by (simp add: trimmedOr_def)
  show "Ticket.ticketId (PlanCore.tickets q ! i) =
              (if trim (Ticket.ticketId (PlanCore.tickets plan ! i)) \<noteq> []
               then trim (Ticket.ticketId (PlanCore.tickets plan ! i))
               else js ''T'' @ numberToString (i + 1))"
    if "i < length (PlanCore.tickets plan)" for i
    using normalizeIds_ticket_fields(1) [OF assms that] by (simp add: trimmedOr_def)
  show "Ticket.epicId (PlanCore.tickets q ! i) =
              (if trim (Ticket.epicId (PlanCore.tickets plan ! i))
                    \<in> Epic.epicId ` set (PlanCore.epics q)
               then trim (Ticket.epicId (PlanCore.tickets plan ! i))
               else case PlanCore.epics q of [] \<Rightarrow> js ''E1'' | e # _ \<Rightarrow> Epic.epicId e)"
    if "i < length (PlanCore.tickets plan)" for i
    using normalizeIds_ticket_fields(2) [OF assms that] by (simp add: fallbackEpicId_def)
  show "Ticket.epicId t \<in> Epic.epicId ` set (PlanCore.epics q)"
    if ne: "PlanCore.epics plan \<noteq> []" and t: "t \<in> set (PlanCore.tickets q)" for t
  proof -
    from t obtain i where i: "i < length (PlanCore.tickets q)" "t = PlanCore.tickets q ! i"
      by (auto simp: in_set_conv_nth)
    then have i': "i < length (PlanCore.tickets plan)" using lt by simp
    have "PlanCore.epics q \<noteq> []" using ne le by auto
    then have "fallbackEpicId (PlanCore.epics q) \<in> Epic.epicId ` set (PlanCore.epics q)"
      by (rule fallbackEpicId_mem)
    then show ?thesis using normalizeIds_ticket_fields(2) [OF assms i'] i(2)
      by (auto split: if_splits)
  qed
qed

lemma normalizeIds_assigns_ids_example:
  "normalizeIds planScenario = Inr planScenarioRepaired \<and>
   map Epic.epicId (PlanCore.epics planScenarioRepaired) = [js ''E1'', js ''E2''] \<and>
   map Ticket.ticketId (PlanCore.tickets planScenarioRepaired) = [js ''T1'', js ''T2'', js ''T3''] \<and>
   map Ticket.epicId (PlanCore.tickets planScenarioRepaired) = [js ''E1'', js ''E1'', js ''E2''] \<and>
   PlanCore.epics planScenario \<noteq> [] \<and>
   Ticket.epicId ` set (PlanCore.tickets planScenarioRepaired)
     \<subseteq> Epic.epicId ` set (PlanCore.epics planScenarioRepaired)"
  using normalizeIds_assigns_ids [OF normalizeIds_planScenario] normalizeIds_planScenario
  by (simp add: planScenario_def planScenarioRepaired_def fixturePlan_def fixtureEpic_def
      fixtureTicket_def)


subsection \<open>The derived ticket lists\<close>

text \<open>
  Claim C3. An epic without matching tickets should get the empty list. For the plan with
  the single epic \<^verbatim>\<open>toString\<close> and no tickets the pass returns the epic with the
  function \<^verbatim>\<open>Object.prototype.toString\<close> in its \<^verbatim>\<open>tickets\<close> field:
  \<^verbatim>\<open>ticketsByEpic[e.epicId] ?? []\<close> reads an inherited property, which is not nullish.
  (\<open>normalizeIds_epic_tickets_derived\<close> is the claim for every other epic id.)
\<close>

theorem normalizeIds_inherited_key:
  "normalizeIds planInheritedKey =
     Inr (fixturePlan [fixtureEpic (js ''toString'') (ProtoMember (js ''toString''))] [])"
  unfolding planInheritedKey_def by (simp add: eval_normalizeIds)


subsection \<open>Distinct ids\<close>

text \<open>
  Claim C4, as stated, fails: raw ids that are equal stay equal. Two epics \<^verbatim>\<open>E1\<close> and
  two tickets \<^verbatim>\<open>T1\<close> pass through the repair unchanged.
\<close>

theorem normalizeIds_duplicate_ids:
  "normalizeIds planDuplicateIds = Inr planDuplicateIds \<and>
   \<not> distinct (map Epic.epicId (PlanCore.epics planDuplicateIds)) \<and>
   \<not> distinct (map Ticket.ticketId (PlanCore.tickets planDuplicateIds))"
  unfolding planDuplicateIds_def by (simp add: eval_normalizeIds)


text \<open>
  Claim C4, amended. When the raw epic ids and the raw ticket ids are repairable (the
  non-empty trimmed ids pairwise different, none equal to an id generated for an absent
  one), the repaired epic ids are pairwise distinct and so are the repaired ticket ids.
\<close>

theorem normalizeIds_ids_distinct:
  assumes "normalizeIds plan = Inr q"
    and e: "idsRepairable (js ''E'') (map Epic.epicId (PlanCore.epics plan))"
    and t: "idsRepairable (js ''T'') (map Ticket.ticketId (PlanCore.tickets plan))"
  shows "distinct (map Epic.epicId (PlanCore.epics q)) \<and>
         distinct (map Ticket.ticketId (PlanCore.tickets q))"
proof
  show "distinct (map Epic.epicId (PlanCore.epics q))"
  proof (rule repairedIds_distinct [where raw = "map Epic.epicId (PlanCore.epics plan)" and p = "js ''E''"])
    show "length (map Epic.epicId (PlanCore.epics q)) = length (map Epic.epicId (PlanCore.epics plan))"
      by (simp add: normalizeIds_epicIds(1) [OF assms(1)])
    show "\<forall>i<length (map Epic.epicId (PlanCore.epics plan)).
       map Epic.epicId (PlanCore.epics q) ! i =
       trimmedOr (map Epic.epicId (PlanCore.epics plan) ! i) (js ''E'' @ numberToString (i + 1))"
      using normalizeIds_epicIds(1,2) [OF assms(1)] by simp
  qed (use e in \<open>simp_all add: idsRepairable_def\<close>)
  show "distinct (map Ticket.ticketId (PlanCore.tickets q))"
  proof (rule repairedIds_distinct [where raw = "map Ticket.ticketId (PlanCore.tickets plan)" and p = "js ''T''"])
    show "length (map Ticket.ticketId (PlanCore.tickets q)) = length (map Ticket.ticketId (PlanCore.tickets plan))"
      by (simp add: normalizeIds_tickets [OF assms(1)])
    show "\<forall>i<length (map Ticket.ticketId (PlanCore.tickets plan)).
       map Ticket.ticketId (PlanCore.tickets q) ! i =
       trimmedOr (map Ticket.ticketId (PlanCore.tickets plan) ! i) (js ''T'' @ numberToString (i + 1))"
      using normalizeIds_ticket_fields(1) [OF assms(1)]
      by (simp add: normalizeIds_tickets [OF assms(1)])
  qed (use t in \<open>simp_all add: idsRepairable_def\<close>)
qed


theorem normalizeIds_ids_distinct_witness:
  "normalizeIds planScenario = Inr planScenarioRepaired \<and>
   idsRepairable (js ''E'') (map Epic.epicId (PlanCore.epics planScenario)) \<and>
   idsRepairable (js ''T'') (map Ticket.ticketId (PlanCore.tickets planScenario)) \<and>
   distinct (map Epic.epicId (PlanCore.epics planScenarioRepaired)) \<and>
   distinct (map Ticket.ticketId (PlanCore.tickets planScenarioRepaired))"
  using normalizeIds_ids_distinct [OF normalizeIds_planScenario idsRepairable_planScenario]
    normalizeIds_planScenario idsRepairable_planScenario
  by simp


subsection \<open>Idempotence\<close>

text \<open>A plan the repair pass returns is a fixed point of the pass.\<close>

lemma normalizeIds_fixed_point:
  assumes "normalizeIds plan = Inr q"
  shows "normalizeIds q = Inr q"
proof -
  let ?es = "repairEpics 0 (PlanCore.epics plan)"
  let ?ts = "repairTickets ?es 0 (PlanCore.tickets plan)"
  from assms obtain m where m: "groupTickets Map.empty ?ts = Inr m"
    and q: "q = plan\<lparr>PlanCore.epics := map (withTickets m) ?es, PlanCore.tickets := ?ts\<rparr>"
    by (rule normalizeIds_Inr)
  have wf: "\<forall>e \<in> set ?es. wellFormedId (Epic.epicId e)" by (auto dest: repairEpics_wellFormed)
  then have wf': "\<forall>e \<in> set (map (withTickets m) ?es). wellFormedId (Epic.epicId e)" by auto
  have es: "repairEpics 0 (PlanCore.epics q) = map (withTickets m) ?es"
    unfolding q using repairEpics_fixed [OF wf'] by simp
  have ids: "map Epic.epicId (map (withTickets m) ?es) = map Epic.epicId ?es" by (simp add: comp_def)
  have "\<forall>t \<in> set ?ts. wellFormedId (Ticket.ticketId t) \<and>
           (Ticket.epicId t \<in> Epic.epicId ` set ?es \<or> (?es = [] \<and> Ticket.epicId t = js ''E1''))"
  proof
    fix t assume "t \<in> set ?ts"
    then obtain k t0 where "t = repairTicket ?es k t0" by (auto dest: set_repairTickets)
    then show "wellFormedId (Ticket.ticketId t) \<and>
           (Ticket.epicId t \<in> Epic.epicId ` set ?es \<or> (?es = [] \<and> Ticket.epicId t = js ''E1''))"
      using repairTicket_result [OF wf] by simp
  qed
  then have "repairTickets ?es 0 ?ts = ?ts" by (rule repairTickets_fixed [OF wf])
  then have ts: "repairTickets (repairEpics 0 (PlanCore.epics q)) 0 (PlanCore.tickets q) = ?ts"
    unfolding es using repairTickets_cong [OF ids] by (simp add: q)
  have g: "groupTickets Map.empty
             (repairTickets (repairEpics 0 (PlanCore.epics q)) 0 (PlanCore.tickets q)) = Inr m"
    using ts m by simp
  have "normalizeIds q =
          Inr (q\<lparr>PlanCore.epics := map (withTickets m) (repairEpics 0 (PlanCore.epics q)),
                 PlanCore.tickets :=
                   repairTickets (repairEpics 0 (PlanCore.epics q)) 0 (PlanCore.tickets q)\<rparr>)"
    by (simp only: normalizeIds_def Let_def g sum.case)
  also have "\<dots> = Inr (q\<lparr>PlanCore.epics := map (withTickets m) (map (withTickets m) ?es),
                          PlanCore.tickets := ?ts\<rparr>)"
    by (subst ts, subst es, rule refl)
  also have "\<dots> = Inr q" by (simp add: q)
  finally show ?thesis .
qed

text \<open>
  Claim C5. Repairing twice is the same as repairing once, for every plan: where the pass
  returns a plan, repairing that plan again returns it unchanged, and where the pass
  throws, so does the composition. (The pass is a function of its argument, so it is
  deterministic and leaves its input as it was.)
\<close>

theorem normalizeIds_idempotent:
  "(case normalizeIds plan of Inl err \<Rightarrow> Inl err | Inr q \<Rightarrow> normalizeIds q) = normalizeIds plan"
  by (cases "normalizeIds plan") (simp_all add: normalizeIds_fixed_point)

theorem normalizeIds_idempotent_witness:
  "normalizeIds planScenario = Inr planScenarioRepaired \<and>
   normalizeIds planScenarioRepaired = Inr planScenarioRepaired"
  using normalizeIds_idempotent [of planScenario] normalizeIds_planScenario
  by simp

section \<open>Properties of lenient decoding\<close>

lemma zStr_eq: "zStr v = Some (leafString [] v)"
  by (auto simp: zStr_def z_catch_def z_string_def leafString_def split: option.splits json.splits)

lemma z_catch_string_eq: "z_catch z_string d v = Some (leafString d v)"
  by (auto simp: z_catch_def z_string_def leafString_def split: option.splits json.splits)

lemma those_strings:
  "those (map (\<lambda>x. z_string (Some x)) xs) =
     (if list_all isJStr xs then Some (map stringOf xs) else None)"
proof (induction xs)
  case Nil
  then show ?case by simp
next
  case (Cons x xs)
  then show ?case by (cases x) (auto simp: z_string_def)
qed

lemma zStrArr_eq: "zStrArr v = Some (leafStringList v)"
  by (auto simp: zStrArr_def z_catch_def z_array_def leafStringList_def those_strings
      split: option.splits json.splits)

lemma z_catch_enum_eq: "z_catch (z_enum variants) d v = Some (leafEnum variants d v)"
  by (auto simp: z_catch_def z_enum_def leafEnum_def split: option.splits json.splits)

lemma z_catch_idem: "z_catch (z_catch s d) d' v = z_catch s d v"
  by (simp add: z_catch_def)

lemma confidence_eq: "z_catch (z_number_min_max 0 100) 70 v = Some (leafConfidence v)"
  by (auto simp: z_catch_def z_number_min_max_def leafConfidence_def
      split: option.splits json.splits)

lemma those_objects:
  assumes "\<And>fs. shape fs = Some (f fs)"
  shows "those (map (\<lambda>x. z_object shape (Some x)) xs) =
     (if list_all isJObj xs then Some (map (\<lambda>x. f (membersOf x)) xs) else None)"
proof (induction xs)
  case Nil
  then show ?case by simp
next
  case (Cons x xs)
  then show ?case by (cases x) (auto simp: z_object_def assms)
qed

lemma z_catch_record_list:
  assumes "\<And>fs. shape fs = Some (f fs)"
  shows "z_catch (z_array (z_object shape)) [] v = Some (leafRecordList f v)"
  by (auto simp: z_catch_def z_array_def leafRecordList_def those_objects [OF assms]
      split: option.splits json.splits)

lemma AnalyticsEvent_shape:
  "(do { name \<leftarrow> zStr (field fs ''name'');
        properties \<leftarrow> zStrArr (field fs ''properties'');
        Some \<lparr>name = name, properties = properties\<rparr> }) = Some (lenientEvent fs)"
  by (simp add: zStr_eq zStrArr_eq lenientEvent_def)

lemma TicketAnalyticsSchema_eq: "TicketAnalyticsSchema v = Some (lenientAnalytics v)"
  unfolding TicketAnalyticsSchema_def AnalyticsEventSchema_def
  by (auto simp: z_catch_record_list [OF AnalyticsEvent_shape] z_catch_def [of "z_object _"]
      z_object_def lenientAnalytics_def split: option.splits json.splits)

lemma TicketQASchema_eq: "TicketQASchema v = Some (lenientQA v)"
  unfolding TicketQASchema_def
  by (auto simp: zStrArr_eq z_catch_def [of "z_object _"] z_object_def lenientQA_def
      split: option.splits json.splits)

lemma Ticket_shape:
  "(do {
     ticketId \<leftarrow> zStr (field fs ''ticketId'');
     epicId \<leftarrow> z_catch z_string (js ''E1'') (field fs ''epicId'');
     type \<leftarrow> TicketTypeEnum (field fs ''type'');
     title \<leftarrow> zStr (field fs ''title'');
     userStory \<leftarrow> zStr (field fs ''userStory'');
     description \<leftarrow> zStr (field fs ''description'');
     acceptanceCriteria \<leftarrow> zStrArr (field fs ''acceptanceCriteria'');
     outOfScope \<leftarrow> zStrArr (field fs ''outOfScope'');
     dependencies \<leftarrow> zStrArr (field fs ''dependencies'');
     priority \<leftarrow> z_catch PriorityEnum P2 (field fs ''priority'');
     estimate \<leftarrow> z_catch EstimateEnum Est_M (field fs ''estimate'');
     labels \<leftarrow> zStrArr (field fs ''labels'');
     components \<leftarrow> zStrArr (field fs ''components'');
     analytics \<leftarrow> TicketAnalyticsSchema (field fs ''analytics'');
     qa \<leftarrow> TicketQASchema (field fs ''qa'');
     Some \<lparr>Ticket.ticketId = ticketId, Ticket.epicId = epicId, type = type,
           Ticket.title = title, userStory = userStory, description = description,
           acceptanceCriteria = acceptanceCriteria, outOfScope = outOfScope,
           dependencies = dependencies, priority = priority, estimate = estimate,
           labels = labels, components = components, analytics = analytics, qa = qa\<rparr> })
   = Some (lenientTicket fs)"
  unfolding TicketTypeEnum_def PriorityEnum_def EstimateEnum_def z_catch_idem
  by (simp add: zStr_eq zStrArr_eq z_catch_string_eq z_catch_enum_eq TicketAnalyticsSchema_eq
      TicketQASchema_eq lenientTicket_def)

lemma Epic_shape:
  "(do {
     epicId \<leftarrow> zStr (field fs ''epicId'');
     title \<leftarrow> zStr (field fs ''title'');
     outcome \<leftarrow> zStr (field fs ''outcome'');
     tickets \<leftarrow> zStrArr (field fs ''tickets'');
     edgeCases \<leftarrow> zStrArr (field fs ''edgeCases'');
     Some \<lparr>Epic.epicId = epicId, Epic.title = title, outcome = outcome,
           Epic.tickets = StrArr tickets, edgeCases = edgeCases\<rparr> })
   = Some (lenientEpic fs)"
  by (simp add: zStr_eq zStrArr_eq lenientEpic_def)

lemma MetaSchema_eq:
  "MetaSchema v = (case v of Some (JObj fs) \<Rightarrow> Some (lenientMeta fs) | _ \<Rightarrow> None)"
  unfolding MetaSchema_def PlatformEnum_def
  by (auto simp: z_object_def zStr_eq zStrArr_eq z_catch_enum_eq confidence_eq lenientMeta_def
      split: option.splits json.splits)

lemma SummarySchema_eq:
  "SummarySchema v = (case v of Some (JObj fs) \<Rightarrow> Some (lenientSummary fs) | _ \<Rightarrow> None)"
  unfolding SummarySchema_def
  by (auto simp: z_object_def zStr_eq zStrArr_eq lenientSummary_def
      split: option.splits json.splits)

lemma MetaSchema_member: "MetaSchema (field fs k) = map_option lenientMeta (objectMember fs k)"
  by (auto simp: MetaSchema_eq objectMember_def split: option.splits json.splits)

lemma SummarySchema_member:
  "SummarySchema (field fs k) = map_option lenientSummary (objectMember fs k)"
  by (auto simp: SummarySchema_eq objectMember_def split: option.splits json.splits)

lemma PlanCoreSchema_char:
  "PlanCoreSchema (Some c) =
     (case c of
        JObj fs \<Rightarrow>
          (case objectMember fs ''meta'' of
             Some m \<Rightarrow>
               (case objectMember fs ''summary'' of
                  Some s \<Rightarrow> Some (lenientPlan fs m s)
                | None \<Rightarrow> None)
           | None \<Rightarrow> None)
      | _ \<Rightarrow> None)"
proof (cases c)
  case (JObj fs)
  have "PlanCoreSchema (Some (JObj fs)) =
          do { meta \<leftarrow> map_option lenientMeta (objectMember fs ''meta'');
               summary \<leftarrow> map_option lenientSummary (objectMember fs ''summary'');
               Some \<lparr>meta = meta, summary = summary,
                     epics = leafRecordList lenientEpic (field fs ''epics''),
                     tickets = leafRecordList lenientTicket (field fs ''tickets'')\<rparr> }"
    unfolding PlanCoreSchema_def EpicSchema_def TicketSchema_def
    by (simp add: z_object_def MetaSchema_member SummarySchema_member
        z_catch_record_list [OF Epic_shape] z_catch_record_list [OF Ticket_shape])
  then show ?thesis using JObj
    by (simp add: lenientPlan_def split: option.splits)
qed (simp_all add: PlanCoreSchema_def z_object_def)


lemmas eval_lenient =
  lenientPlan_def lenientMeta_def lenientSummary_def lenientTicket_def lenientEpic_def
  lenientAnalytics_def lenientQA_def lenientEvent_def leafRecordList_def leafStringList_def
  leafString_def leafEnum_def leafConfidence_def objectMember_def field_def js_def


lemma leafConfidence_invalid: "confidenceInvalid v \<Longrightarrow> leafConfidence v = 70"
  by (auto simp: confidenceInvalid_def leafConfidence_def split: option.splits json.splits)


text \<open>
  Claim C1, as stated, fails twice. The empty object is a candidate on which decoding
  fails: \<^verbatim>\<open>meta\<close> and \<^verbatim>\<open>summary\<close> have no \<^verbatim>\<open>.catch\<close>. And a ticket without an
  \<^verbatim>\<open>epicId\<close> is decoded with \<^verbatim>\<open>"E1"\<close>, not with the empty string.
\<close>

theorem PlanCoreSchema_not_total:
  "PlanCoreSchema (Some candidateEmpty) = None \<and>
   map_option (map Ticket.epicId \<circ> PlanCore.tickets) (PlanCoreSchema (Some candidateBareTicket))
     = Some [js ''E1'']"
  by (simp add: PlanCoreSchema_char candidateEmpty_def candidateBareTicket_def eval_lenient)

text \<open>
  Claim C1, amended. Decoding a candidate succeeds exactly when the candidate is an object
  whose \<^verbatim>\<open>meta\<close> and \<^verbatim>\<open>summary\<close> members are objects, and fails otherwise. When it
  succeeds the result is the structurally complete plan \<open>lenientPlan\<close>, in which every
  missing or invalid leaf is replaced by its default: the empty string for a string
  (\<^verbatim>\<open>"E1"\<close> for a ticket's epic id), the empty list for a list of strings and for a list
  of epics, tickets or events, the record of empty lists for \<^verbatim>\<open>qa\<close> and
  \<^verbatim>\<open>analytics\<close>, the variants web, task, P2 and M for the enumerations and 70 for the
  confidence.
\<close>

theorem PlanCoreSchema_lenient:
  "PlanCoreSchema (Some c) =
     (case c of
        JObj fs \<Rightarrow>
          (case objectMember fs ''meta'' of
             Some m \<Rightarrow>
               (case objectMember fs ''summary'' of
                  Some s \<Rightarrow> Some (lenientPlan fs m s)
                | None \<Rightarrow> None)
           | None \<Rightarrow> None)
      | _ \<Rightarrow> None)"
  by (rule PlanCoreSchema_char)


text \<open>
  Claim C10, as stated, fails: the candidate that holds an empty \<^verbatim>\<open>meta\<close> and nothing
  else has no \<^verbatim>\<open>meta.confidence\<close>, and decoding it yields no plan, hence no
  confidence: \<^verbatim>\<open>summary\<close> is missing and has no \<^verbatim>\<open>.catch\<close>.
\<close>

theorem confidence_without_summary:
  "field candidateMetaOnly ''meta'' = Some (JObj []) \<and>
   confidenceInvalid (field [] ''confidence'') \<and>
   PlanCoreSchema (Some (JObj candidateMetaOnly)) = None"
  by (simp add: PlanCoreSchema_char candidateMetaOnly_def confidenceInvalid_def objectMember_def
      field_def js_def)

text \<open>The decoded \<^verbatim>\<open>meta\<close> record itself has confidence 70 whenever the member is invalid.\<close>

lemma MetaSchema_confidence_fallback:
  assumes "confidenceInvalid (field m ''confidence'')"
  shows "map_option confidence (MetaSchema (Some (JObj m))) = Some 70"
  using assms by (simp add: MetaSchema_eq lenientMeta_def leafConfidence_invalid)

text \<open>
  Claim C10, amended. For every candidate object whose \<^verbatim>\<open>meta\<close> and \<^verbatim>\<open>summary\<close>
  members are objects and whose \<^verbatim>\<open>meta.confidence\<close> is missing, not a number, or a
  number outside the range 0 to 100, decoding yields a plan, and its confidence is 70.
\<close>

theorem confidence_fallback:
  assumes "field fs ''meta'' = Some (JObj m)"
    and "field fs ''summary'' = Some (JObj s)"
    and "confidenceInvalid (field m ''confidence'')"
  shows "map_option (confidence \<circ> meta) (PlanCoreSchema (Some (JObj fs))) = Some 70"
proof -
  have c: "confidence (lenientMeta m) = 70"
    using assms(3) by (simp add: lenientMeta_def leafConfidence_invalid)
  have "objectMember fs ''meta'' = Some m" "objectMember fs ''summary'' = Some s"
    using assms(1,2) by (simp_all add: objectMember_def)
  then show ?thesis by (simp add: PlanCoreSchema_char lenientPlan_def c)
qed

theorem confidence_fallback_witness:
  "field candidateOverconfident ''meta'' =
     Some (JObj [(js ''productName'', JStr (js ''Tutor'')), (js ''confidence'', JNum 150)]) \<and>
   field candidateOverconfident ''summary'' = Some (JObj []) \<and>
   confidenceInvalid
     (field [(js ''productName'', JStr (js ''Tutor'')), (js ''confidence'', JNum 150)] ''confidence'') \<and>
   map_option (confidence \<circ> meta) (PlanCoreSchema (Some (JObj candidateOverconfident))) = Some 70"
proof -
  have 1: "field candidateOverconfident ''meta'' =
     Some (JObj [(js ''productName'', JStr (js ''Tutor'')), (js ''confidence'', JNum 150)])"
    by (simp add: candidateOverconfident_def field_def js_def)
  have 2: "field candidateOverconfident ''summary'' = Some (JObj [])"
    by (simp add: candidateOverconfident_def field_def js_def)
  have 3: "confidenceInvalid
     (field [(js ''productName'', JStr (js ''Tutor'')), (js ''confidence'', JNum 150)] ''confidence'')"
    by (simp add: confidenceInvalid_def field_def js_def)
  from confidence_fallback [OF 1 2 3] 1 2 3 show ?thesis by blast
qed

section \<open>Properties of the Markdown renderers\<close>

lemma startsWith_append: "startsWith (p @ b) p"
  by (simp add: startsWith_def)

lemma includesString_prefix: "includesString (p @ b) p"
proof (cases "p @ b")
  case Nil
  then show ?thesis by simp
next
  case (Cons c cs)
  have "startsWith (p @ b) p" by (rule startsWith_append)
  with Cons show ?thesis by simp
qed

lemma includesString_later: "includesString s p \<Longrightarrow> includesString (a @ s) p"
  by (induction a) auto

lemma includesString_mid: "includesString (a @ p @ b) p"
  by (intro includesString_later includesString_prefix)

lemma includesString_iff: "includesString s p \<longleftrightarrow> (\<exists>a b. s = a @ p @ b)"
proof
  show "includesString s p \<Longrightarrow> \<exists>a b. s = a @ p @ b"
  proof (induction s)
    case Nil
    then show ?case by simp
  next
    case (Cons c cs)
    show ?case
    proof (cases "startsWith (c # cs) p")
      case True
      then have "c # cs = [] @ p @ drop (length p) (c # cs)"
        unfolding startsWith_def by (metis append_Nil append_take_drop_id)
      then show ?thesis by blast
    next
      case False
      with Cons.prems have "includesString cs p" by simp
      then obtain a b where "cs = a @ p @ b" using Cons.IH by blast
      then have "c # cs = (c # a) @ p @ b" by simp
      then show ?thesis by blast
    qed
  qed
next
  show "\<exists>a b. s = a @ p @ b \<Longrightarrow> includesString s p"
    using includesString_mid by blast
qed


lemma ticketToMarkdown_ticketBare:
  "ticketToMarkdown ticketBare =
     js ''### T1 - Add login'' @ newline @
     js ''Type: task | Priority: P2 | Estimate: M'' @ newline @
     newline @
     js ''User story: '' @ newline @
     newline @
     newline @
     newline @
     js ''Acceptance criteria:'' @ newline @
     newline @
     js ''QA test cases:'' @ newline @
     newline @
     js ''Analytics events:''"
  by (simp add: ticketToMarkdown_def ticketParts_def ticketHead_def ticketTail_def
      optionalSection_def bullets_def ticketBare_def fixtureTicket_def js_def newline_def)

lemma includesString_prefix4: "includesString (a @ b @ c @ d @ rest) (a @ b @ c @ d)"
  using includesString_prefix [of "a @ b @ c @ d" rest] by simp

lemma orNone_empty: "orNone (join newline (bullets [])) = js ''- None''"
  by (simp add: orNone_def bullets_def)


text \<open>
  Claim C8, as stated, fails for the Markdown export: for a ticket with no dependencies
  and nothing out of scope \<^verbatim>\<open>ticketToMarkdown\<close> of the markdown module renders neither the
  word \<^verbatim>\<open>None\<close> nor the two headings. Its guards
  \<^verbatim>\<open>if (t.outOfScope?.length)\<close> and \<^verbatim>\<open>if (t.dependencies?.length)\<close> leave the sections out.
\<close>

theorem ticketToMarkdown_omits_sections:
  "dependencies ticketBare = [] \<and> outOfScope ticketBare = [] \<and>
   \<not> includesString (ticketToMarkdown ticketBare) (js ''None'') \<and>
   \<not> includesString (ticketToMarkdown ticketBare) (js ''Dependencies:'') \<and>
   \<not> includesString (ticketToMarkdown ticketBare) (js ''Out of scope:'')"
proof -
  have 1: "dependencies ticketBare = []" "outOfScope ticketBare = []"
    by (simp_all add: ticketBare_def fixtureTicket_def)
  have 2: "\<not> includesString (ticketToMarkdown ticketBare) (js ''None'')"
    unfolding ticketToMarkdown_ticketBare by (simp add: js_def newline_def startsWith_def)
  have 3: "\<not> includesString (ticketToMarkdown ticketBare) (js ''Dependencies:'')"
    unfolding ticketToMarkdown_ticketBare by (simp add: js_def newline_def startsWith_def)
  have 4: "\<not> includesString (ticketToMarkdown ticketBare) (js ''Out of scope:'')"
    unfolding ticketToMarkdown_ticketBare by (simp add: js_def newline_def startsWith_def)
  from 1 2 3 4 show ?thesis by simp
qed

text \<open>
  Claim C8, amended. For every ticket whose dependencies and out-of-scope lists are both
  empty, the ticket-card block renders the list item \<^verbatim>\<open>- None\<close> under
  \<^verbatim>\<open>Dependencies:\<close> and under \<^verbatim>\<open>Out of scope:\<close>, and the Markdown export renders no
  section for either list: the QA test cases follow the acceptance criteria directly.
\<close>

theorem ticket_without_dependencies_or_outOfScope:
  assumes "dependencies t = []" and "outOfScope t = []"
  shows "includesString (ticketToMarkdown_page t)
           (js ''Dependencies:'' @ newline @ js ''- None'' @ newline) \<and>
         includesString (ticketToMarkdown_page t)
           (js ''Out of scope:'' @ newline @ js ''- None'' @ newline) \<and>
         ticketToMarkdown t = join newline (ticketHead t @ ticketTail t)"
proof (intro conjI)
  show "includesString (ticketToMarkdown_page t)
           (js ''Dependencies:'' @ newline @ js ''- None'' @ newline)"
    unfolding ticketToMarkdown_page_def Let_def assms orNone_empty
    by (rule includesString_prefix4 | rule includesString_later)+
  show "includesString (ticketToMarkdown_page t)
           (js ''Out of scope:'' @ newline @ js ''- None'' @ newline)"
    unfolding ticketToMarkdown_page_def Let_def assms orNone_empty
    by (rule includesString_prefix4 | rule includesString_later)+
  show "ticketToMarkdown t = join newline (ticketHead t @ ticketTail t)"
    using assms by (simp add: ticketToMarkdown_def ticketParts_def optionalSection_def)
qed

theorem ticket_without_dependencies_or_outOfScope_witness:
  "dependencies ticketBare = [] \<and> outOfScope ticketBare = [] \<and>
   includesString (ticketToMarkdown_page ticketBare)
     (js ''Dependencies:'' @ newline @ js ''- None'' @ newline) \<and>
   includesString (ticketToMarkdown_page ticketBare)
     (js ''Out of scope:'' @ newline @ js ''- None'' @ newline) \<and>
   ticketToMarkdown ticketBare = join newline (ticketHead ticketBare @ ticketTail ticketBare)"
proof -
  have 1: "dependencies ticketBare = []" and 2: "outOfScope ticketBare = []"
    by (simp_all add: ticketBare_def fixtureTicket_def)
  from ticket_without_dependencies_or_outOfScope [OF 1 2] 1 2 show ?thesis by simp
qed

section \<open>Properties of the issue-link builder\<close>

lemma hex_cases:
  assumes "d < 16"
  shows "d = 0 \<or> d = 1 \<or> d = 2 \<or> d = 3 \<or> d = 4 \<or> d = 5 \<or> d = 6 \<or> d = 7 \<or> d = 8 \<or> d = 9 \<or>
         d = 10 \<or> d = 11 \<or> d = 12 \<or> d = 13 \<or> d = 14 \<or> d = (15::nat)"
  using assms by arith

lemma hexDigit_facts:
  assumes "d < 16"
  shows "hexDigit d \<noteq> 0x25" and "hexDigit d = 0x32 \<longleftrightarrow> d = 2" and "hexDigit d = 0x30 \<longleftrightarrow> d = 0"
    and "hexDigit d \<noteq> 0x20"
  using hex_cases [OF assms] by (auto simp: hexDigit_def)

lemma replacePercent20_other: "a \<noteq> 0x25 \<Longrightarrow> replacePercent20 (a # r) = a # replacePercent20 r"
proof (cases r)
  case Nil
  then show ?thesis by simp
next
  case (Cons b r')
  assume "a \<noteq> 0x25"
  then show ?thesis using Cons by (cases r') auto
qed

lemma div_mod_32: "(b::nat) div 16 = 2 \<and> b mod 16 = 0 \<longleftrightarrow> b = 32"
proof
  assume a: "b div 16 = 2 \<and> b mod 16 = 0"
  have "b = 16 * (b div 16) + b mod 16" by simp
  with a show "b = 32" by simp
next
  assume "b = 32"
  then show "b div 16 = 2 \<and> b mod 16 = 0" by simp
qed

lemma replacePercent20_escape:
  assumes "b < 256"
  shows "replacePercent20 (percentEscape b @ r) =
           (if b = 0x20 then [0x2B] else percentEscape b) @ replacePercent20 r"
proof -
  define h1 h2 where "h1 = hexDigit (b div 16)" and "h2 = hexDigit (b mod 16)"
  have d1: "b div 16 < 16" using assms by (simp add: less_mult_imp_div_less)
  have d2: "b mod 16 < 16" by simp
  have n1: "h1 \<noteq> 0x25" unfolding h1_def by (rule hexDigit_facts(1) [OF d1])
  have n2: "h2 \<noteq> 0x25" unfolding h2_def by (rule hexDigit_facts(1) [OF d2])
  have c: "h1 = 0x32 \<and> h2 = 0x30 \<longleftrightarrow> b = 32"
    unfolding h1_def h2_def hexDigit_facts(2) [OF d1] hexDigit_facts(3) [OF d2]
    by (rule div_mod_32)
  have p: "percentEscape b = [0x25, h1, h2]" by (simp add: percentEscape_def h1_def h2_def)
  have "replacePercent20 (h2 # r) = h2 # replacePercent20 r"
    by (rule replacePercent20_other [OF n2])
  then have t: "replacePercent20 (h1 # h2 # r) = h1 # h2 # replacePercent20 r"
    using replacePercent20_other [OF n1, of "h2 # r"] by (simp only:)
  have u: "replacePercent20 (0x25 # h1 # h2 # r) =
          (if h1 = 0x32 \<and> h2 = 0x30 then 0x2B # replacePercent20 r
           else 0x25 # replacePercent20 (h1 # h2 # r))"
    by (simp only: replacePercent20.simps(1) simp_thms)
  show ?thesis
  proof (cases "b = 32")
    case True
    then have "h1 = 0x32 \<and> h2 = 0x30" using c by blast
    then show ?thesis unfolding p using True by (simp only: u) simp
  next
    case False
    then have "\<not> (h1 = 0x32 \<and> h2 = 0x30)" using c by blast
    then have "replacePercent20 (0x25 # h1 # h2 # r) = 0x25 # replacePercent20 (h1 # h2 # r)"
      by (simp only: u if_False)
    then show ?thesis unfolding p using False by (simp only: t) simp
  qed
qed

lemma replacePercent20_escapes:
  assumes "\<forall>b \<in> set bs. b < 256 \<and> b \<noteq> 0x20"
  shows "replacePercent20 (concat (map percentEscape bs) @ r) =
           concat (map percentEscape bs) @ replacePercent20 r"
  using assms
proof (induction bs)
  case Nil
  then show ?case by simp
next
  case (Cons b bs)
  then have "replacePercent20 (percentEscape b @ concat (map percentEscape bs) @ r) =
               percentEscape b @ replacePercent20 (concat (map percentEscape bs) @ r)"
    using replacePercent20_escape [of b] by simp
  with Cons show ?case by simp
qed

lemma utf8_octets:
  assumes "v < 0x110000" and "v \<noteq> 0x20"
  shows "\<forall>b \<in> set (utf8 v). b < 256 \<and> b \<noteq> 0x20"
proof -
  have "v mod 64 < 64" "v div 64 mod 64 < 64" "v div 4096 mod 64 < 64" by simp_all
  moreover have "v < 0x800 \<Longrightarrow> v div 64 < 32" "v < 0x10000 \<Longrightarrow> v div 4096 < 16"
    "v div 262144 < 8" using assms(1) by simp_all
  ultimately show ?thesis using assms(2) by (auto simp: utf8_def)
qed

lemma replacePercent20_codePoint:
  assumes "v < 0x110000"
  shows "replacePercent20 (escapeCodePoint v @ r) = formEncodeCodePoint v @ replacePercent20 r"
proof (cases "v = 0x20")
  case True
  then show ?thesis
    using replacePercent20_escape [of "0x20" r]
    by (simp add: escapeCodePoint_def formEncodeCodePoint_def utf8_def)
next
  case False
  then show ?thesis
    using replacePercent20_escapes [OF utf8_octets [OF assms False]]
    by (simp add: escapeCodePoint_def formEncodeCodePoint_def)
qed

lemma unat_jschar_bound: "unat (c :: jschar) < 0x110000"
proof -
  have "unat c < 2 ^ 16" using unsigned_less [of c] by simp
  then show ?thesis by simp
qed

lemma pairCodePoint_bound:
  assumes "isLeadSurrogate hi" and "isTrailSurrogate lo"
  shows "pairCodePoint hi lo < 0x110000"
proof -
  have "unat hi \<le> 0xDBFF" using assms(1) by (simp add: isLeadSurrogate_def word_le_nat_alt)
  moreover have "unat lo \<le> 0xDFFF" using assms(2) by (simp add: isTrailSurrogate_def word_le_nat_alt)
  ultimately show ?thesis by (simp add: pairCodePoint_def)
qed

lemma unreserved_not_surrogate:
  assumes "isUnreserved c"
  shows "\<not> isTrailSurrogate c" and "\<not> isLeadSurrogate c"
proof -
  have "unat c < 0x80"
    using assms by (auto simp: isUnreserved_def word_le_nat_alt)
  then show "\<not> isTrailSurrogate c" and "\<not> isLeadSurrogate c"
    by (auto simp: isTrailSurrogate_def isLeadSurrogate_def word_le_nat_alt)
qed

lemma unreserved_not_percent: "isUnreserved c \<Longrightarrow> c \<noteq> 0x25"
  by (auto simp: isUnreserved_def)

lemma encodeURIComponent_wellFormed:
  "wellFormedUTF16 s \<Longrightarrow>
     \<exists>e. encodeURIComponent s = Inr e \<and> replacePercent20 e = formEncode s"
proof (induction s rule: encodeURIComponent.induct)
  case 1
  then show ?case by simp
next
  case (2 c cs)
  show ?case
  proof (cases "isUnreserved c")
    case True
    then have notSur: "\<not> isTrailSurrogate c" "\<not> isLeadSurrogate c"
      by (rule unreserved_not_surrogate)+
    with "2.prems" have "wellFormedUTF16 cs" by simp
    then obtain e where "encodeURIComponent cs = Inr e" "replacePercent20 e = formEncode cs"
      using "2.IH"(1) [OF True] by blast
    then show ?thesis using True
      by (simp add: replacePercent20_other unreserved_not_percent)
  next
    case unres: False
    from "2.prems" have nt: "\<not> isTrailSurrogate c" by (auto split: if_splits)
    show ?thesis
    proof (cases "isLeadSurrogate c")
      case False
      with "2.prems" nt have "wellFormedUTF16 cs" by simp
      then obtain e where "encodeURIComponent cs = Inr e" "replacePercent20 e = formEncode cs"
        using "2.IH"(2) [OF unres nt False] by blast
      then show ?thesis using unres nt False
        by (simp add: replacePercent20_codePoint [OF unat_jschar_bound])
    next
      case True
      with "2.prems" nt obtain d ds where cs: "cs = d # ds" and d: "isTrailSurrogate d"
        and wf: "wellFormedUTF16 ds" by (auto split: list.splits)
      have "\<not> \<not> isLeadSurrogate c" using True by simp
      from "2.IH"(3) [OF unres nt this cs d wf]
      obtain e where "encodeURIComponent ds = Inr e" "replacePercent20 e = formEncode ds" by blast
      then show ?thesis using unres nt True cs d
        by (simp add: replacePercent20_codePoint [OF pairCodePoint_bound [OF True d]])
    qed
  qed
qed

lemma encodeURIComponent_illFormed:
  "\<not> wellFormedUTF16 s \<Longrightarrow> encodeURIComponent s = Inl URIError"
proof (induction s rule: encodeURIComponent.induct)
  case 1
  then show ?case by simp
next
  case (2 c cs)
  show ?case
  proof (cases "isUnreserved c")
    case True
    then have notSur: "\<not> isTrailSurrogate c" "\<not> isLeadSurrogate c"
      by (rule unreserved_not_surrogate)+
    with "2.prems" have "\<not> wellFormedUTF16 cs" by simp
    then show ?thesis using True "2.IH"(1) [OF True] by simp
  next
    case unres: False
    show ?thesis
    proof (cases "isTrailSurrogate c")
      case True
      then show ?thesis using unres by simp
    next
      case nt: False
      show ?thesis
      proof (cases "isLeadSurrogate c")
        case False
        with "2.prems" nt have "\<not> wellFormedUTF16 cs" by simp
        then show ?thesis using unres nt False "2.IH"(2) [OF unres nt False] by simp
      next
        case True
        show ?thesis
        proof (cases cs)
          case Nil
          then show ?thesis using unres nt True by simp
        next
          case (Cons d ds)
          show ?thesis
          proof (cases "isTrailSurrogate d")
            case False
            then show ?thesis using unres nt True Cons by simp
          next
            case d: True
            with "2.prems" nt True Cons have "\<not> wellFormedUTF16 ds" by simp
            moreover have "\<not> \<not> isLeadSurrogate c" using True by simp
            ultimately show ?thesis
              using unres nt True Cons d "2.IH"(3) [OF unres nt _ Cons d] by simp
          qed
        qed
      qed
    qed
  qed
qed

lemma encodeForQuery_eq:
  "encodeForQuery s = (if wellFormedUTF16 s then Inr (formEncode s) else Inl URIError)"
  using encodeURIComponent_wellFormed [of s] encodeURIComponent_illFormed [of s]
  by (auto simp: encodeForQuery_def)

lemma utf8_bound: "v < 0x110000 \<Longrightarrow> \<forall>b \<in> set (utf8 v). b < 256"
proof -
  assume a: "v < 0x110000"
  have "v mod 64 < 64" "v div 64 mod 64 < 64" "v div 4096 mod 64 < 64" by simp_all
  moreover have "v < 0x800 \<Longrightarrow> v div 64 < 32" "v < 0x10000 \<Longrightarrow> v div 4096 < 16"
    "v div 262144 < 8" using a by simp_all
  ultimately show ?thesis by (auto simp: utf8_def)
qed

lemma escapeCodePoint_no_space:
  assumes "v < 0x110000"
  shows "0x20 \<notin> set (escapeCodePoint v)"
proof -
  have "0x20 \<notin> set (percentEscape b)" if "b < 256" for b
  proof -
    have "b div 16 < 16" "b mod 16 < 16" using that by auto
    then show ?thesis using hexDigit_facts(4) by (auto simp: percentEscape_def)
  qed
  then show ?thesis using utf8_bound [OF assms] by (auto simp: escapeCodePoint_def)
qed

lemma formEncodeCodePoint_no_space: "v < 0x110000 \<Longrightarrow> 0x20 \<notin> set (formEncodeCodePoint v)"
  by (simp add: formEncodeCodePoint_def escapeCodePoint_no_space)

lemma unreserved_not_space: "isUnreserved c \<Longrightarrow> c \<noteq> 0x20"
  by (auto simp: isUnreserved_def)

lemma formEncode_no_space: "wellFormedUTF16 s \<Longrightarrow> 0x20 \<notin> set (formEncode s)"
proof (induction s rule: formEncode.induct)
  case 1
  then show ?case by simp
next
  case (2 c cs)
  show ?case
  proof (cases "isUnreserved c")
    case True
    with "2.prems" have "wellFormedUTF16 cs"
      using unreserved_not_surrogate [OF True] by simp
    then show ?thesis using True "2.IH"(1) [OF True] by (simp add: unreserved_not_space)
  next
    case unres: False
    from "2.prems" have nt: "\<not> isTrailSurrogate c" by (auto split: if_splits)
    show ?thesis
    proof (cases "isLeadSurrogate c")
      case True
      with "2.prems" nt obtain d ds where cs: "cs = d # ds" and d: "isTrailSurrogate d"
        and wf: "wellFormedUTF16 ds" by (auto split: list.splits)
      from "2.IH"(2) [OF unres True cs wf] show ?thesis
        using unres True cs formEncodeCodePoint_no_space [OF pairCodePoint_bound [OF True d]]
        by simp
    next
      case False
      with "2.prems" nt have "wellFormedUTF16 cs" by simp
      from "2.IH"(3) [OF unres False this] show ?thesis
        using unres False formEncodeCodePoint_no_space [OF unat_jschar_bound [of c]] by simp
    qed
  qed
qed

lemma buildLinearNewUrl_eq:
  "wellFormedUTF16 a \<Longrightarrow> wellFormedUTF16 b \<Longrightarrow>
     buildLinearNewUrl a b =
       Inr (js ''https://linear.new?title='' @ formEncode a @ js ''&description='' @ formEncode b)"
  by (simp add: buildLinearNewUrl_def encodeForQuery_eq)


lemma title_ticketBare: "Ticket.title ticketBare = js ''Add login''"
  by (simp add: ticketBare_def fixtureTicket_def)

lemma wellFormed_title: "wellFormedUTF16 (js ''Add login'')"
  by (simp add: js_def isTrailSurrogate_def isLeadSurrogate_def)

lemma formEncode_title: "formEncode (js ''Add login'') = js ''Add+login''"
  by (simp add: js_def isUnreserved_def isLeadSurrogate_def formEncodeCodePoint_def)

lemma description_ticketBare:
  "ticketMarkdownDescription ticketBare =
     js ''Type: task'' @ newline @ js ''Priority: P2'' @ newline @ js ''Estimate: M'' @ newline
     @ newline @ js ''User story: '' @ newline @ newline @ newline @ newline
     @ js ''Acceptance criteria:'' @ newline @ newline @ js ''QA test cases:'' @ newline
     @ newline @ js ''Analytics:''"
  by (simp add: ticketMarkdownDescription_def ticketBare_def fixtureTicket_def bullets_def
      optionalSection_def js_def newline_def)

lemma wellFormed_description: "wellFormedUTF16 (ticketMarkdownDescription ticketBare)"
  unfolding description_ticketBare
  by (simp add: js_def newline_def isTrailSurrogate_def isLeadSurrogate_def)


text \<open>
  Claim C7, as stated, fails for a plan with a ticket whose title holds a surrogate code
  unit outside a pair: \<^verbatim>\<open>encodeURIComponent\<close> throws a URIError and no link is built.
\<close>

theorem buildLinearLinks_lone_surrogate:
  "buildLinearLinks [ticketLoneSurrogate] = Inl URIError"
  by (simp add: ticketLoneSurrogate_def fixtureTicket_def buildLinearNewUrl_def encodeForQuery_def
      isUnreserved_def isTrailSurrogate_def isLeadSurrogate_def)

text \<open>
  Claim C7, amended. For tickets whose titles and link bodies are well-formed UTF-16 the
  builder returns exactly one pair per ticket, in ticket order: the ticket's id and the
  URL \<^verbatim>\<open>https://linear.new?title=...&description=...\<close> whose two parameters are the
  title and the body in URL-component encoding with every space written as \<^verbatim>\<open>+\<close>
  (\<open>formEncode\<close>); no space is left in either parameter.
\<close>

theorem buildLinearLinks_one_per_ticket:
  assumes "\<forall>t \<in> set ts. wellFormedUTF16 (Ticket.title t) \<and>
                        wellFormedUTF16 (ticketMarkdownDescription t)"
  shows "buildLinearLinks ts = Inr (map linearLinkFor ts) \<and>
         (\<forall>t \<in> set ts. 0x20 \<notin> set (formEncode (Ticket.title t)) \<and>
                       0x20 \<notin> set (formEncode (ticketMarkdownDescription t)))"
proof
  show "buildLinearLinks ts = Inr (map linearLinkFor ts)"
    using assms by (induction ts) (simp_all add: buildLinearNewUrl_eq linearLinkFor_def)
  show "\<forall>t \<in> set ts. 0x20 \<notin> set (formEncode (Ticket.title t)) \<and>
                       0x20 \<notin> set (formEncode (ticketMarkdownDescription t))"
    using assms formEncode_no_space by blast
qed


theorem buildLinearLinks_one_per_ticket_witness:
  "wellFormedUTF16 (Ticket.title ticketBare) \<and>
   wellFormedUTF16 (ticketMarkdownDescription ticketBare) \<and>
   buildLinearLinks [ticketBare] = Inr [linearLinkFor ticketBare] \<and>
   formEncode (Ticket.title ticketBare) = js ''Add+login'' \<and>
   0x20 \<notin> set (formEncode (ticketMarkdownDescription ticketBare))"
proof -
  have 1: "wellFormedUTF16 (Ticket.title ticketBare)"
    by (simp add: title_ticketBare wellFormed_title)
  have 2: "\<forall>t \<in> set [ticketBare]. wellFormedUTF16 (Ticket.title t) \<and>
                        wellFormedUTF16 (ticketMarkdownDescription t)"
    using 1 wellFormed_description by simp
  from buildLinearLinks_one_per_ticket [OF 2] 1 wellFormed_description
  show ?thesis by (simp add: title_ticketBare formEncode_title)
qed

section \<open>Properties of the text normalizer\<close>

lemma set_crlfToLf: "set (crlfToLf s) \<subseteq> set s"
  by (induction s rule: crlfToLf.induct) auto

lemma set_joinHyphenated: "set (joinHyphenated s) \<subseteq> set s"
  by (induction s rule: joinHyphenated.induct) auto

lemma ends_suffix:
  "st' \<in> set (ends r st) \<Longrightarrow> \<exists>pre. snd st = pre @ snd st'"
proof (induction r st arbitrary: st' rule: ends.induct)
  case (1 P p s)
  then show ?case by (auto simp: ends.simps split: list.splits if_splits)
next
  case (2 a b st)
  from "2.prems" obtain mid where mid: "mid \<in> set (ends a st)" and st': "st' \<in> set (ends b mid)"
    by (auto simp: ends.simps)
  from "2.IH"(1) [OF mid] obtain pre1 where "snd st = pre1 @ snd mid" by blast
  moreover from "2.IH"(2) [OF mid st'] obtain pre2 where "snd mid = pre2 @ snd st'" by blast
  ultimately have "snd st = (pre1 @ pre2) @ snd st'" by simp
  then show ?case by blast
next
  case (3 a st)
  then show ?case by (cases st') (auto simp: ends.simps)
next
  case (4 a st)
  from "4.prems" have "st' \<in> set (concat (map (\<lambda>st'. if length (snd st') < length (snd st)
            then ends (Star a) st' else []) (ends a st)) @ [st])"
    by (subst (asm) ends.simps) simp
  then consider "st' = st"
    | mid where "mid \<in> set (ends a st)" "length (snd mid) < length (snd st)"
        "st' \<in> set (ends (Star a) mid)"
    by (auto split: if_splits)
  then show ?case
  proof cases
    case 1
    then show ?thesis by simp
  next
    case 2
    from "4.IH"(1) [OF 2(1)] obtain pre1 where "snd st = pre1 @ snd mid" by blast
    moreover from "4.IH"(2) [OF 2(1) 2(2) 2(3)] obtain pre2 where "snd mid = pre2 @ snd st'"
      by blast
    ultimately have "snd st = (pre1 @ pre2) @ snd st'" by simp
    then show ?thesis by blast
  qed
next
  case (5 p s)
  then show ?case by (auto simp: ends.simps split: option.splits if_splits)
next
  case (6 p s)
  then show ?case by (auto simp: ends.simps split: list.splits if_splits)
next
  case (7 p s)
  then show ?case by (auto simp: ends.simps split: list.splits)
qed

lemma set_removeMatches: "set (removeMatches r p s) \<subseteq> set s"
proof (induction r p s rule: removeMatches.induct)
  case (1 r p s)
  show ?case
  proof (cases "ends r (p, s)")
    case Nil
    show ?thesis
    proof (cases s)
      case empty: Nil
      then show ?thesis using Nil by (subst removeMatches.simps) simp
    next
      case (Cons c cs)
      from "1.IH"(1) [OF Nil Cons] show ?thesis using Nil Cons
        by (subst removeMatches.simps) auto
    qed
  next
    case (Cons st' rest)
    obtain p' s' where st': "(p', s') = st'" by (cases st') auto
    have "st' \<in> set (ends r (p, s))" using Cons by simp
    then obtain pre where pre: "s = pre @ s'" using ends_suffix st' by fastforce
    show ?thesis
    proof (cases "length s' < length s")
      case True
      from "1.IH"(2) [OF Cons st' True] pre have "set (removeMatches r p' s') \<subseteq> set s"
        by auto
      then show ?thesis using True Cons st' [symmetric]
        by (subst removeMatches.simps) simp
    next
      case False
      show ?thesis
      proof (cases s)
        case Nil
        then show ?thesis using False Cons st' [symmetric]
          by (subst removeMatches.simps) simp
      next
        case cons: (Cons c cs)
        from "1.IH"(3) [OF Cons st' False cons] show ?thesis
          using False Cons st' [symmetric] cons
          by (subst removeMatches.simps) auto
      qed
    qed
  qed
qed

lemma set_collapseNewlines: "set (collapseNewlines s) \<subseteq> set s"
proof (induction s rule: collapseNewlines.induct)
  case (1 s)
  show ?case
  proof (cases "3 \<le> length (takeWhile (\<lambda>c. c = 0x0A) s)")
    case True
    then have "takeWhile (\<lambda>c. c = 0x0A) s \<noteq> []" by auto
    then have "0x0A \<in> set s" by (cases s) (auto split: if_splits)
    moreover have "set (dropWhile (\<lambda>c. c = 0x0A) s) \<subseteq> set s" by (auto dest: set_dropWhileD)
    ultimately show ?thesis using True "1.IH"(1) [OF True]
      by (subst collapseNewlines.simps) auto
  next
    case False
    then show ?thesis using "1.IH"(2) [OF False]
      by (subst collapseNewlines.simps) (auto split: list.splits)
  qed
qed

lemma set_splitOn: "l \<in> set (splitOn d s) \<Longrightarrow> set l \<subseteq> set s"
proof (induction s arbitrary: l)
  case Nil
  then show ?case by simp
next
  case (Cons c cs)
  then show ?case by (fastforce split: if_splits list.splits)
qed

lemma set_join: "set (join sep xs) \<subseteq> set sep \<union> \<Union> (set ` set xs)"
  by (induction sep xs rule: join.induct) auto

lemma set_trimLines: "set (trimLines s) \<subseteq> insert 0x0A (set s)"
proof -
  have "\<Union> (set ` set (map (removeMatches trailingSpace None) (splitOn 0x0A s))) \<subseteq> set s"
    using set_removeMatches set_splitOn by fastforce
  then show ?thesis
    unfolding trimLines_def using set_join [of newline] by (fastforce simp: newline_def)
qed

lemma set_trim: "set (trim s) \<subseteq> set s"
  by (auto simp: trim_def trimStart_def trimEnd_def dest!: set_dropWhileD)

lemma crToLf_no_cr: "0x0D \<notin> set (crToLf s)"
  by (auto simp: crToLf_def)

lemma clean_before_pageMarker:
  "c \<in> set (bulletsToDash (joinHyphenated (nbspToSpace (removeZeroWidth (crToLf (crlfToLf raw))))))
     \<Longrightarrow> isCleanUnit c"
proof -
  let ?t = "crToLf (crlfToLf raw)"
  let ?u = "removeZeroWidth ?t"
  let ?v = "nbspToSpace ?u"
  let ?w = "joinHyphenated ?v"
  assume "c \<in> set (bulletsToDash ?w)"
  then consider "c = 0x2D" | "c \<in> set ?w" "\<not> isBullet c"
    by (auto simp: bulletsToDash_def split: if_splits)
  then show ?thesis
  proof cases
    case 1
    then show ?thesis by (simp add: isCleanUnit_def isZeroWidth_def isBullet_def)
  next
    case 2
    then have "c \<in> set ?v" using set_joinHyphenated by blast
    then consider "c = 0x20" | "c \<in> set ?u" "c \<noteq> 0xA0"
      by (auto simp: nbspToSpace_def split: if_splits)
    then show ?thesis
    proof cases
      case 1
      then show ?thesis by (simp add: isCleanUnit_def isZeroWidth_def isBullet_def)
    next
      case b: 2
      then have "c \<in> set ?t" "\<not> isZeroWidth c" by (auto simp: removeZeroWidth_def)
      moreover have "c \<noteq> 0x0D" using \<open>c \<in> set ?t\<close> crToLf_no_cr by metis
      ultimately show ?thesis using b(2) 2(2) by (simp add: isCleanUnit_def)
    qed
  qed
qed

lemma cleanPrdText_units: "c \<in> set (cleanPrdText raw) \<Longrightarrow> isCleanUnit c"
proof -
  let ?z = "bulletsToDash (joinHyphenated (nbspToSpace (removeZeroWidth (crToLf (crlfToLf raw)))))"
  assume "c \<in> set (cleanPrdText raw)"
  then have "c \<in> set (trimLines (collapseNewlines (removeMatches pageMarker None ?z)))"
    unfolding cleanPrdText_def using set_trim by blast
  then have "c = 0x0A \<or> c \<in> set (collapseNewlines (removeMatches pageMarker None ?z))"
    using set_trimLines by blast
  then have "c = 0x0A \<or> c \<in> set ?z"
    using set_collapseNewlines set_removeMatches by blast
  then show ?thesis
  proof
    assume "c = 0x0A"
    then show ?thesis by (simp add: isCleanUnit_def isZeroWidth_def isBullet_def)
  next
    assume "c \<in> set ?z"
    then show ?thesis by (rule clean_before_pageMarker)
  qed
qed


text \<open>
  Claim C9, as stated, fails: the normalizer is not idempotent. The newline runs are
  collapsed before the lines are trimmed, so two lines of spaces leave three newlines in
  a row, which a second pass collapses to two.
\<close>

theorem cleanPrdText_not_idempotent:
  "cleanPrdText textBlankLines = js ''a'' @ newline @ newline @ newline @ js ''b'' \<and>
   cleanPrdText (cleanPrdText textBlankLines) = js ''a'' @ newline @ newline @ js ''b'' \<and>
   cleanPrdText (cleanPrdText textBlankLines) \<noteq> cleanPrdText textBlankLines"
  by code_simp

text \<open>
  Claim C9, amended. \<open>cleanPrdText\<close> is a total function of its argument whose result
  is trimmed and holds no carriage return, zero-width character, non-breaking space or
  bullet glyph. (Idempotence is not among its properties.)
\<close>

theorem cleanPrdText_normal_form:
  "trim (cleanPrdText s) = cleanPrdText s \<and> list_all isCleanUnit (cleanPrdText s)"
proof
  show "trim (cleanPrdText s) = cleanPrdText s"
    by (simp add: cleanPrdText_def trim_idem)
  show "list_all isCleanUnit (cleanPrdText s)"
    using cleanPrdText_units by (auto simp: list_all_iff)
qed


section \<open>Properties of the endpoint\<close>




















end
